theory Spec2Isabelle
  imports Main "HOL-Library.Word"
begin

unbundle bit_operations_syntax

section \<open>JavaScript values used by the reader\<close>

text \<open>
  An \<open>ArrayBuffer\<close> (and the \<open>Uint8Array\<close> over it) is a list of 8-bit words. A
  JavaScript string is a list of UTF-16 code units, so \<open>length\<close> of it is what
  \<open>String.prototype.length\<close> returns. HTTP header values are byte strings.
\<close>

type_synonym bytes = "8 word list"
type_synonym jsstring = "16 word list"

text \<open>
  A JavaScript \<open>number\<close> that the reader computes with is an integer or \<open>NaN\<close>
  (\<open>parseInt\<close> of a header without digits). Integers are taken exact, which doubles are
  up to \<open>2 ^ 53\<close>; every ZIP field is below \<open>2 ^ 32\<close>.
\<close>

datatype number = NaN | Num int

fun falsy :: "number \<Rightarrow> bool" where
  "falsy NaN = True"
| "falsy (Num n) = (n = 0)"

fun numAdd :: "number \<Rightarrow> number \<Rightarrow> number" where
  "numAdd (Num a) (Num b) = Num (a + b)"
| "numAdd _ _ = NaN"

fun numSub :: "number \<Rightarrow> number \<Rightarrow> number" where
  "numSub (Num a) (Num b) = Num (a - b)"
| "numSub _ _ = NaN"

text \<open>\<open>Math.min\<close>: \<open>NaN\<close> as soon as one argument is \<open>NaN\<close>.\<close>

fun mathMin :: "number \<Rightarrow> number \<Rightarrow> number" where
  "mathMin (Num a) (Num b) = Num (min a b)"
| "mathMin _ _ = NaN"

text \<open>\<open>ToNumber\<close> of a field that may be \<open>undefined\<close>.\<close>

fun toNumber :: "int option \<Rightarrow> number" where
  "toNumber None = NaN"
| "toNumber (Some n) = Num n"

text \<open>A string literal of the source as code units (ASCII only).\<close>

definition js :: "string \<Rightarrow> jsstring" where
  "js s = map (\<lambda>c. of_nat (of_char c)) s"

text \<open>\<open>String.prototype.endsWith\<close> with the default end position.\<close>

definition endsWith :: "jsstring \<Rightarrow> jsstring \<Rightarrow> bool" where
  "endsWith s suffix =
     (length suffix \<le> length s \<and> drop (length s - length suffix) s = suffix)"

section \<open>Errors\<close>

text \<open>
  Every \<open>throw\<close> of the source and every exception of the runtime that the source can
  meet is a value: \<open>FetchRejected\<close> is a rejected \<open>fetch\<close> (or body read),
  \<open>HttpError\<close> the \<open>HTTP error! Status\<close> error, \<open>RangeError\<close> the
  \<open>DataView\<close> read outside the buffer.
\<close>

datatype error =
    FetchRejected
  | HttpError nat
  | MissingContentLength
  | InvalidEOCDSignature
  | EOCDNotFound
  | InvalidCentralDirSignature
  | RangeError

definition bindE :: "error + 'a \<Rightarrow> ('a \<Rightarrow> error + 'b) \<Rightarrow> error + 'b" where
  "bindE r f = (case r of Inl e \<Rightarrow> Inl e | Inr v \<Rightarrow> f v)"

section \<open>DataView and typed-array reads\<close>

text \<open>Little-endian value of the bytes at an offset (the offset is in range where used).\<close>

definition le16 :: "bytes \<Rightarrow> nat \<Rightarrow> nat" where
  "le16 b off = unat (b ! off) + 256 * unat (b ! (off + 1))"

definition le32 :: "bytes \<Rightarrow> nat \<Rightarrow> nat" where
  "le32 b off = unat (b ! off) + 256 * unat (b ! (off + 1))
     + 65536 * unat (b ! (off + 2)) + 16777216 * unat (b ! (off + 3))"

text \<open>\<open>DataView.getUint16(off, true)\<close> and \<open>getUint32(off, true)\<close>: a read that does
  not fit in the buffer throws \<open>RangeError\<close>. The values are unsigned; a buffer offset is
  a \<open>nat\<close> (the reader only passes 0 and sums of unsigned fields).\<close>

definition getUint16 :: "bytes \<Rightarrow> nat \<Rightarrow> error + nat" where
  "getUint16 b off = (if off + 2 \<le> length b then Inr (le16 b off) else Inl RangeError)"

definition getUint32 :: "bytes \<Rightarrow> nat \<Rightarrow> error + nat" where
  "getUint32 b off = (if off + 4 \<le> length b then Inr (le32 b off) else Inl RangeError)"

text \<open>\<open>bytes[i]\<close> on a \<open>Uint8Array\<close>: \<open>undefined\<close> outside the array.\<close>

definition byteAt :: "bytes \<Rightarrow> int \<Rightarrow> 8 word option" where
  "byteAt b i = (if 0 \<le> i \<and> i < int (length b) then Some (b ! nat i) else None)"

text \<open>\<open>slice(start, end)\<close> with \<open>0 \<le> start \<le> end\<close>: clamped to the buffer.\<close>

definition slice :: "'a list \<Rightarrow> nat \<Rightarrow> nat \<Rightarrow> 'a list" where
  "slice b start end = take (end - start) (drop start b)"

section \<open>TextDecoder\<close>

text \<open>
  \<open>new TextDecoder().decode(bytes)\<close> is the UTF-8 decoder of the Encoding standard in
  replacement mode: a malformed sequence gives U+FFFD and the offending byte is decoded
  again as the start of a new sequence; a leading U+FEFF is dropped; the code points are
  then written as UTF-16 code units.  \<open>utf8Decode cp needed lo hi\<close> carries the code
  point built so far, the number of continuation bytes still needed and the bounds for
  the next byte.
\<close>

datatype utf8step = Emit nat | Start nat nat "8 word" "8 word" | Invalid

definition utf8First :: "8 word \<Rightarrow> utf8step" where
  "utf8First b =
     (if b \<le> 0x7F then Emit (unat b)
      else if 0xC2 \<le> b \<and> b \<le> 0xDF then Start (unat (b AND 0x1F)) 1 0x80 0xBF
      else if 0xE0 \<le> b \<and> b \<le> 0xEF then
        Start (unat (b AND 0xF)) 2 (if b = 0xE0 then 0xA0 else 0x80)
          (if b = 0xED then 0x9F else 0xBF)
      else if 0xF0 \<le> b \<and> b \<le> 0xF4 then
        Start (unat (b AND 0x7)) 3 (if b = 0xF0 then 0x90 else 0x80)
          (if b = 0xF4 then 0x8F else 0xBF)
      else Invalid)"

fun utf8Decode :: "nat \<Rightarrow> nat \<Rightarrow> 8 word \<Rightarrow> 8 word \<Rightarrow> bytes \<Rightarrow> nat list" where
  "utf8Decode cp needed lo hi [] = (if needed = 0 then [] else [0xFFFD])"
| "utf8Decode cp needed lo hi (b # bs) =
     (if needed = 0 \<or> b < lo \<or> hi < b then
        (if needed = 0 then [] else [0xFFFD]) @
        (case utf8First b of
           Emit c \<Rightarrow> c # utf8Decode 0 0 0x80 0xBF bs
         | Start c n l h \<Rightarrow> utf8Decode c n l h bs
         | Invalid \<Rightarrow> 0xFFFD # utf8Decode 0 0 0x80 0xBF bs)
      else if needed = 1 then
        (cp * 64 + unat (b AND 0x3F)) # utf8Decode 0 0 0x80 0xBF bs
      else utf8Decode (cp * 64 + unat (b AND 0x3F)) (needed - 1) 0x80 0xBF bs)"

fun dropBOM :: "nat list \<Rightarrow> nat list" where
  "dropBOM [] = []"
| "dropBOM (c # cs) = (if c = 0xFEFF then cs else c # cs)"

definition utf16 :: "nat \<Rightarrow> jsstring" where
  "utf16 c =
     (if c < 0x10000 then [of_nat c]
      else [of_nat (0xD800 + (c - 0x10000) div 1024), of_nat (0xDC00 + (c - 0x10000) mod 1024)])"

definition textDecode :: "bytes \<Rightarrow> jsstring" where
  "textDecode b = concat (map utf16 (dropBOM (utf8Decode 0 0 0x80 0xBF b)))"

section \<open>The reader's data\<close>

record EOCD =
  diskNumber :: int
  centralDirDisk :: int
  diskEntryCount :: int
  totalEntryCount :: int
  centralDirSize :: int
  centralDirOffset :: int
  commentLength :: int
  absoluteOffset :: number

text \<open>
  \<open>FileEntry\<close> as it is at run time: the decoder leaves \<open>fileNameLength\<close>,
  \<open>extraFieldLength\<close> and \<open>dataOffset\<close> absent (\<open>undefined\<close>, here \<open>None\<close>) and the
  resolver fills them in.
\<close>

record FileEntry =
  fileName :: jsstring
  compressedSize :: int
  uncompressedSize :: int
  fileNameLength :: "int option"
  localHeaderOffset :: int
  extraFieldLength :: "int option"
  dataOffset :: "int option"
  isDirectory :: bool
  isImage :: "bool option"

section \<open>Data offset resolver\<close>

text \<open>
  \<open>calculateFileDataOffset\<close> writes three fields of the entry and returns it. Its
  \<open>try\<close> block only reads \<open>entry.fileName.length\<close> and adds numbers, which cannot
  throw on a \<open>FileEntry\<close>, so the \<open>catch\<close> branch is never entered. It makes no
  request and touches no field of the reader, so it is a function of the entry alone.
\<close>

definition calculateFileDataOffset :: "FileEntry \<Rightarrow> FileEntry" where
  "calculateFileDataOffset entry =
     (let headerSize = 30;
          fileNameLength' = int (length (fileName entry));
          extraFieldLength' = 0;
          dataOffset' = localHeaderOffset entry + headerSize + fileNameLength' + extraFieldLength'
      in entry\<lparr>dataOffset := Some dataOffset',
               fileNameLength := Some fileNameLength',
               extraFieldLength := Some extraFieldLength'\<rparr>)"

section \<open>The remote resource\<close>

text \<open>
  What \<open>fetch\<close> gives back: the promise is rejected, or there is a response with a status
  and a payload. For the \<open>HEAD\<close> request the payload is the value of the
  \<open>content-length\<close> header (\<open>None\<close> when \<open>headers.get\<close> returns \<open>null\<close>); for a
  range request it is the body. The range request is keyed by the two numbers that the
  source formats into the \<open>Range\<close> header.
\<close>

datatype 'a reply = Rejected | Reply nat 'a

record server =
  onHead :: "string option reply"
  onRange :: "number \<Rightarrow> number \<Rightarrow> bytes reply"

text \<open>\<open>response.ok\<close>\<close>

definition ok :: "nat \<Rightarrow> bool" where
  "ok status = (200 \<le> status \<and> status \<le> 299)"

datatype request = Head | GetRange number number

text \<open>
  The reader object: \<open>url\<close> and \<open>fileSize\<close> are its two fields. \<open>requests\<close> is
  not a field of the source: it records, in order, every \<open>fetch\<close> the reader has issued,
  so that the number and the ranges of the reads can be stated. No operation reads it.
\<close>

record ZipReader =
  url :: string
  fileSize :: number
  requests :: "request list"

definition newZipReader :: "string \<Rightarrow> ZipReader" where
  "newZipReader u = \<lparr>url = u, fileSize = Num 0, requests = []\<rparr>"

section \<open>Range fetcher\<close>

text \<open>
  \<open>parseInt(s, 10)\<close>: leading white space is skipped, then an optional sign, then the
  longest run of decimal digits; \<open>NaN\<close> when there is no digit.
\<close>

definition isWhiteSpace :: "char \<Rightarrow> bool" where
  "isWhiteSpace c = ((of_char c :: nat) \<in> {0x09, 0x0A, 0x0B, 0x0C, 0x0D, 0x20, 0xA0})"

definition isDigit :: "char \<Rightarrow> bool" where
  "isDigit c = (48 \<le> (of_char c :: nat) \<and> (of_char c :: nat) \<le> 57)"

definition digitValue :: "char \<Rightarrow> nat" where
  "digitValue c = of_char c - 48"

definition digitsValue :: "string \<Rightarrow> nat" where
  "digitsValue ds = foldl (\<lambda>a c. 10 * a + digitValue c) 0 ds"

definition parseInt10 :: "string \<Rightarrow> number" where
  "parseInt10 s =
     (let s1 = dropWhile isWhiteSpace s;
          sign = (if take 1 s1 = ''-'' then - 1 else 1);
          s2 = (if take 1 s1 = ''-'' \<or> take 1 s1 = ''+'' then drop 1 s1 else s1);
          ds = takeWhile isDigit s2
      in if ds = [] then NaN else Num (sign * int (digitsValue ds)))"

definition getFileSize :: "server \<Rightarrow> ZipReader \<Rightarrow> (error + number) \<times> ZipReader" where
  "getFileSize srv this =
     (let this1 = this\<lparr>requests := requests this @ [Head]\<rparr> in
      case onHead srv of
        Rejected \<Rightarrow> (Inl FetchRejected, this1)
      | Reply status contentLength \<Rightarrow>
          if \<not> ok status then (Inl (HttpError status), this1)
          else (case contentLength of
                  None \<Rightarrow> (Inl MissingContentLength, this1)
                | Some s \<Rightarrow>
                    if s = [] then (Inl MissingContentLength, this1)
                    else (Inr (parseInt10 s), this1\<lparr>fileSize := parseInt10 s\<rparr>)))"

definition fetchRange ::
  "server \<Rightarrow> number \<Rightarrow> number \<Rightarrow> ZipReader \<Rightarrow> (error + bytes) \<times> ZipReader" where
  "fetchRange srv start end this =
     (let this1 = this\<lparr>requests := requests this @ [GetRange start end]\<rparr> in
      case onRange srv start end of
        Rejected \<Rightarrow> (Inl FetchRejected, this1)
      | Reply status body \<Rightarrow>
          if \<not> ok status then (Inl (HttpError status), this1)
          else (Inr body, this1))"

section \<open>EOCD locator\<close>

definition parseEOCD :: "bytes \<Rightarrow> error + EOCD" where
  "parseEOCD buffer =
     bindE (getUint32 buffer 0) (\<lambda>signature.
     if signature \<noteq> 0x06054b50 then Inl InvalidEOCDSignature
     else
     bindE (getUint16 buffer 4) (\<lambda>diskNumber'.
     bindE (getUint16 buffer 6) (\<lambda>centralDirDisk'.
     bindE (getUint16 buffer 8) (\<lambda>diskEntryCount'.
     bindE (getUint16 buffer 10) (\<lambda>totalEntryCount'.
     bindE (getUint32 buffer 12) (\<lambda>centralDirSize'.
     bindE (getUint32 buffer 16) (\<lambda>centralDirOffset'.
     bindE (getUint16 buffer 20) (\<lambda>commentLength'.
     Inr \<lparr>diskNumber = int diskNumber',
          centralDirDisk = int centralDirDisk',
          diskEntryCount = int diskEntryCount',
          totalEntryCount = int totalEntryCount',
          centralDirSize = int centralDirSize',
          centralDirOffset = int centralDirOffset',
          commentLength = int commentLength',
          absoluteOffset = Num 0\<rparr>))))))))"

text \<open>
  The backward search of \<open>findEOCD\<close>: the loop variable \<open>i\<close> runs from
  \<open>bytes.length - 22\<close> down to 0; at the first match the 22 bytes there are parsed and
  the search is over.
\<close>

function scanEOCD :: "bytes \<Rightarrow> number \<Rightarrow> int \<Rightarrow> error + EOCD" where
  "scanEOCD buffer startPos i =
     (if i \<ge> 0 then
        (if byteAt buffer i = Some 0x50 \<and>
            byteAt buffer (i + 1) = Some 0x4b \<and>
            byteAt buffer (i + 2) = Some 0x05 \<and>
            byteAt buffer (i + 3) = Some 0x06
         then bindE (parseEOCD (slice buffer (nat i) (nat i + 22)))
                (\<lambda>eocd. Inr (eocd\<lparr>absoluteOffset := numAdd startPos (Num i)\<rparr>))
         else scanEOCD buffer startPos (i - 1))
      else Inl EOCDNotFound)"
  by pat_completeness auto
termination
  by (relation "measure (\<lambda>(buffer, startPos, i). nat (i + 1))") auto

definition findEOCD :: "server \<Rightarrow> ZipReader \<Rightarrow> (error + EOCD) \<times> ZipReader" where
  "findEOCD srv this =
     (case (if falsy (fileSize this) then getFileSize srv this
            else (Inr (fileSize this), this)) of
        (Inl e, this1) \<Rightarrow> (Inl e, this1)
      | (Inr _, this1) \<Rightarrow>
          (let maxCommentLength = 65535;
               bufferSize = mathMin (Num (maxCommentLength + 22)) (fileSize this1);
               startPos = numSub (fileSize this1) bufferSize;
               endPos = numSub (fileSize this1) (Num 1)
           in case fetchRange srv startPos endPos this1 of
                (Inl e, this2) \<Rightarrow> (Inl e, this2)
              | (Inr buffer, this2) \<Rightarrow>
                  (scanEOCD buffer startPos (int (length buffer) - 22), this2)))"

section \<open>Central directory decoder\<close>

text \<open>
  \<open>String.prototype.toLowerCase\<close> is the runtime's Unicode case mapping; the decoder and
  the extractor take it as the parameter \<open>lc\<close>. \<open>asciiLower\<close> is the mapping on ASCII
  letters, used where a concrete one is needed.
\<close>

definition asciiLower :: "jsstring \<Rightarrow> jsstring" where
  "asciiLower s = map (\<lambda>c. if 0x41 \<le> c \<and> c \<le> 0x5A then c + 0x20 else c) s"

definition isImageName :: "(jsstring \<Rightarrow> jsstring) \<Rightarrow> jsstring \<Rightarrow> bool" where
  "isImageName lc name =
     (endsWith (lc name) (js ''.jpg'') \<or>
      endsWith (lc name) (js ''.jpeg'') \<or>
      endsWith (lc name) (js ''.png''))"

definition parseCentralDirEntry ::
  "(jsstring \<Rightarrow> jsstring) \<Rightarrow> bytes \<Rightarrow> nat \<Rightarrow> error + (FileEntry \<times> nat)" where
  "parseCentralDirEntry lc buffer offset =
     bindE (getUint32 buffer offset) (\<lambda>signature.
     if signature \<noteq> 0x02014b50 then Inl InvalidCentralDirSignature
     else
     bindE (getUint16 buffer (offset + 28)) (\<lambda>fileNameLength'.
     bindE (getUint16 buffer (offset + 30)) (\<lambda>extraFieldLength'.
     bindE (getUint16 buffer (offset + 32)) (\<lambda>commentLength'.
     let fileNameBytes = slice buffer (offset + 46) (offset + 46 + fileNameLength');
         fileName' = textDecode fileNameBytes
     in
     bindE (getUint32 buffer (offset + 20)) (\<lambda>compressedSize'.
     bindE (getUint32 buffer (offset + 24)) (\<lambda>uncompressedSize'.
     bindE (getUint32 buffer (offset + 42)) (\<lambda>localHeaderOffset'.
     let entrySize = 46 + fileNameLength' + extraFieldLength' + commentLength';
         isDirectory' = endsWith fileName' (js ''/'');
         isImage' = (\<not> isDirectory' \<and> isImageName lc fileName')
     in Inr (\<lparr>fileName = fileName',
              compressedSize = int compressedSize',
              uncompressedSize = int uncompressedSize',
              fileNameLength = None,
              localHeaderOffset = int localHeaderOffset',
              extraFieldLength = None,
              dataOffset = None,
              isDirectory = isDirectory',
              isImage = Some isImage'\<rparr>,
             offset + entrySize))))))))"

text \<open>
  The loop of \<open>readCentralDirectory\<close>, by the number of iterations still to run
  (\<open>totalEntryCount - i\<close>): an entry that fails to parse ends the loop (\<open>break\<close> in the
  \<open>catch\<close>), whatever the error.
\<close>

fun decodeEntries ::
  "(jsstring \<Rightarrow> jsstring) \<Rightarrow> bytes \<Rightarrow> nat \<Rightarrow> nat \<Rightarrow> FileEntry list \<Rightarrow> FileEntry list" where
  "decodeEntries lc buffer 0 offset entries = entries"
| "decodeEntries lc buffer (Suc remaining) offset entries =
     (case parseCentralDirEntry lc buffer offset of
        Inr (entry, nextOffset) \<Rightarrow>
          decodeEntries lc buffer remaining nextOffset (entries @ [entry])
      | Inl error \<Rightarrow> entries)"

definition readCentralDirectory ::
  "(jsstring \<Rightarrow> jsstring) \<Rightarrow> server \<Rightarrow> EOCD \<Rightarrow> ZipReader
     \<Rightarrow> (error + FileEntry list) \<times> ZipReader" where
  "readCentralDirectory lc srv eocd this =
     (let centralDirStart = centralDirOffset eocd;
          centralDirEnd = centralDirStart + centralDirSize eocd - 1
      in case fetchRange srv (Num centralDirStart) (Num centralDirEnd) this of
           (Inl e, this1) \<Rightarrow> (Inl e, this1)
         | (Inr buffer, this1) \<Rightarrow>
             (Inr (decodeEntries lc buffer (nat (totalEntryCount eocd)) 0 []), this1))"

section \<open>Listing\<close>

text \<open>\<open>Promise.all\<close> over \<open>entries.map\<close> returns the results in the order of the array.\<close>

definition processEntry :: "FileEntry \<Rightarrow> FileEntry" where
  "processEntry entry = (if isDirectory entry then entry else calculateFileDataOffset entry)"

definition readTableOfContents ::
  "(jsstring \<Rightarrow> jsstring) \<Rightarrow> server \<Rightarrow> ZipReader \<Rightarrow> (error + FileEntry list) \<times> ZipReader" where
  "readTableOfContents lc srv this =
     (case findEOCD srv this of
        (Inl e, this1) \<Rightarrow> (Inl e, this1)
      | (Inr eocd, this1) \<Rightarrow>
          (case readCentralDirectory lc srv eocd this1 of
             (Inl e, this2) \<Rightarrow> (Inl e, this2)
           | (Inr entries, this2) \<Rightarrow> (Inr (map processEntry entries), this2)))"

section \<open>Entry extractor\<close>

text \<open>A \<open>Blob\<close>: its bytes and its \<open>type\<close> (the empty string when none is given).\<close>

record Blob =
  blobData :: bytes
  blobType :: string

text \<open>The test \<open>!entry.dataOffset\<close>: true for \<open>undefined\<close> and for 0.\<close>

definition unresolved :: "FileEntry \<Rightarrow> bool" where
  "unresolved entry = falsy (toNumber (dataOffset entry))"

text \<open>
  \<open>extractFile\<close> returns the blob; the entry it may have written to and the reader come
  back with it.
\<close>

definition extractFile ::
  "(jsstring \<Rightarrow> jsstring) \<Rightarrow> server \<Rightarrow> FileEntry \<Rightarrow> ZipReader
     \<Rightarrow> (error + Blob) \<times> FileEntry \<times> ZipReader" where
  "extractFile lc srv entry this =
     (let entry1 = (if unresolved entry then calculateFileDataOffset entry else entry);
          start = toNumber (dataOffset entry1);
          end = numSub (numAdd start (Num (compressedSize entry1))) (Num 1)
      in case fetchRange srv start end this of
           (Inl e, this1) \<Rightarrow> (Inl e, entry1, this1)
         | (Inr buffer, this1) \<Rightarrow>
             (if isImageName lc (fileName entry1) then
                (Inr \<lparr>blobData = buffer,
                      blobType = (if endsWith (lc (fileName entry1)) (js ''.png'')
                                  then ''image/png'' else ''image/jpeg'')\<rparr>, entry1, this1)
              else (Inr \<lparr>blobData = buffer, blobType = []\<rparr>, entry1, this1)))"

section \<open>A static file server\<close>

text \<open>
  The remote side the reader is written for: one fixed resource \<open>archive\<close> behind a
  server that reports its exact length and honours single byte ranges as HTTP defines
  them. A range \<open>first-last\<close> with \<open>0 \<le> first \<le> last\<close> that starts inside the
  resource is answered 206 with the bytes from \<open>first\<close> to \<open>last\<close>, cut at the
  end of the resource; one that starts behind the end is answered 416; a \<open>Range\<close>
  header that is not a valid range (\<open>last < first\<close>, a negative number, \<open>NaN\<close>) is
  ignored and the whole resource is sent with status 200.
\<close>

definition digitChar :: "nat \<Rightarrow> char" where
  "digitChar d = ''0123456789'' ! d"

fun showNat :: "nat \<Rightarrow> string" where
  "showNat n =
     (if n < 10 then [digitChar n]
      else showNat (n div 10) @ [digitChar (n mod 10)])"

fun serveRange :: "bytes \<Rightarrow> number \<Rightarrow> number \<Rightarrow> bytes reply" where
  "serveRange archive (Num firstPos) (Num lastPos) =
     (if 0 \<le> firstPos \<and> firstPos \<le> lastPos then
        (if firstPos < int (length archive)
         then Reply 206 (slice archive (nat firstPos) (nat lastPos + 1))
         else Reply 416 [])
      else Reply 200 archive)"
| "serveRange archive _ _ = Reply 200 archive"

definition staticServer :: "bytes \<Rightarrow> server" where
  "staticServer archive =
     \<lparr>onHead = Reply 200 (Some (showNat (length archive))),
      onRange = serveRange archive\<rparr>"

section \<open>Notions used to state the properties\<close>

text \<open>
  The central directory record at an offset, read as the decoder reads it: the entry
  its fields denote and the number of bytes it occupies.
\<close>

definition entryAt :: "(jsstring \<Rightarrow> jsstring) \<Rightarrow> bytes \<Rightarrow> nat \<Rightarrow> FileEntry" where
  "entryAt lc buffer offset =
     (let fileName' =
            textDecode (slice buffer (offset + 46) (offset + 46 + le16 buffer (offset + 28)));
          isDirectory' = endsWith fileName' (js ''/'')
      in \<lparr>fileName = fileName',
          compressedSize = int (le32 buffer (offset + 20)),
          uncompressedSize = int (le32 buffer (offset + 24)),
          fileNameLength = None,
          localHeaderOffset = int (le32 buffer (offset + 42)),
          extraFieldLength = None,
          dataOffset = None,
          isDirectory = isDirectory',
          isImage = Some (\<not> isDirectory' \<and> isImageName lc fileName')\<rparr>)"

definition entrySizeAt :: "bytes \<Rightarrow> nat \<Rightarrow> nat" where
  "entrySizeAt buffer offset =
     46 + le16 buffer (offset + 28) + le16 buffer (offset + 30) + le16 buffer (offset + 32)"

text \<open>
  The number of bytes of the UTF-8 encoding of a string, which is the length of a name
  as a ZIP header counts it: one to three bytes for a code unit outside the surrogate
  range, four for a surrogate pair, three (U+FFFD) for a lone surrogate.
\<close>

definition unitBytes :: "16 word \<Rightarrow> nat" where
  "unitBytes c = (if c < 0x80 then 1 else if c < 0x800 then 2 else 3)"

fun utf8ByteLength :: "jsstring \<Rightarrow> nat" where
  "utf8ByteLength [] = 0"
| "utf8ByteLength [c] = unitBytes c"
| "utf8ByteLength (c # d # cs) =
     (if 0xD800 \<le> c \<and> c \<le> 0xDBFF \<and> 0xDC00 \<le> d \<and> d \<le> 0xDFFF
      then 4 + utf8ByteLength cs
      else unitBytes c + utf8ByteLength (d # cs))"

text \<open>
  \<open>decodesTo lc buffer offset es end\<close>: decoding one record after the other from
  \<open>offset\<close> succeeds for \<open>length es\<close> records, yields the entries \<open>es\<close> and stops
  at \<open>end\<close>.
\<close>

fun decodesTo ::
  "(jsstring \<Rightarrow> jsstring) \<Rightarrow> bytes \<Rightarrow> nat \<Rightarrow> FileEntry list \<Rightarrow> nat \<Rightarrow> bool" where
  "decodesTo lc buffer offset [] end = (offset = end)"
| "decodesTo lc buffer offset (e # es) end =
     (case parseCentralDirEntry lc buffer offset of
        Inr (entry, nextOffset) \<Rightarrow> entry = e \<and> decodesTo lc buffer nextOffset es end
      | Inl error \<Rightarrow> False)"

section \<open>Example archives\<close>

text \<open>
  A stored archive of three entries, \<open>a.png\<close> (2 bytes), the directory \<open>d/\<close> and
  a file whose name is e-acute followed by \<open>.jpg\<close>, six bytes in UTF-8 (1 byte of
  content, \<open>0x7A\<close>, at position 105). The central directory is at 106, the end record at 257; there is no comment.
\<close>

definition exampleArchive :: bytes where
  "exampleArchive = [0x50, 0x4B, 0x03, 0x04, 0x14, 0x00, 0x00, 0x00, 0x00, 0x00, 0x00, 0x00, 0x21, 0x00,
     0x99, 0x28, 0xE6, 0x8F, 0x02, 0x00, 0x00, 0x00, 0x02, 0x00, 0x00, 0x00, 0x05, 0x00, 0x00,
     0x00, 0x61, 0x2E, 0x70, 0x6E, 0x67, 0x78, 0x79, 0x50, 0x4B, 0x03, 0x04, 0x14, 0x00, 0x00,
     0x00, 0x00, 0x00, 0x00, 0x00, 0x21, 0x00, 0x00, 0x00, 0x00, 0x00, 0x00, 0x00, 0x00, 0x00,
     0x00, 0x00, 0x00, 0x00, 0x02, 0x00, 0x00, 0x00, 0x64, 0x2F, 0x50, 0x4B, 0x03, 0x04, 0x14,
     0x00, 0x00, 0x08, 0x00, 0x00, 0x00, 0x00, 0x21, 0x00, 0xAF, 0x77, 0xD2, 0x62, 0x01, 0x00,
     0x00, 0x00, 0x01, 0x00, 0x00, 0x00, 0x06, 0x00, 0x00, 0x00, 0xC3, 0xA9, 0x2E, 0x6A, 0x70,
     0x67, 0x7A, 0x50, 0x4B, 0x01, 0x02, 0x14, 0x00, 0x14, 0x00, 0x00, 0x00, 0x00, 0x00, 0x00,
     0x00, 0x21, 0x00, 0x99, 0x28, 0xE6, 0x8F, 0x02, 0x00, 0x00, 0x00, 0x02, 0x00, 0x00, 0x00,
     0x05, 0x00, 0x00, 0x00, 0x00, 0x00, 0x00, 0x00, 0x00, 0x00, 0x00, 0x00, 0x80, 0x01, 0x00,
     0x00, 0x00, 0x00, 0x61, 0x2E, 0x70, 0x6E, 0x67, 0x50, 0x4B, 0x01, 0x02, 0x14, 0x00, 0x14,
     0x00, 0x00, 0x00, 0x00, 0x00, 0x00, 0x00, 0x21, 0x00, 0x00, 0x00, 0x00, 0x00, 0x00, 0x00,
     0x00, 0x00, 0x00, 0x00, 0x00, 0x00, 0x02, 0x00, 0x00, 0x00, 0x00, 0x00, 0x00, 0x00, 0x00,
     0x00, 0x00, 0x00, 0x80, 0x01, 0x25, 0x00, 0x00, 0x00, 0x64, 0x2F, 0x50, 0x4B, 0x01, 0x02,
     0x14, 0x00, 0x14, 0x00, 0x00, 0x08, 0x00, 0x00, 0x00, 0x00, 0x21, 0x00, 0xAF, 0x77, 0xD2,
     0x62, 0x01, 0x00, 0x00, 0x00, 0x01, 0x00, 0x00, 0x00, 0x06, 0x00, 0x00, 0x00, 0x00, 0x00,
     0x00, 0x00, 0x00, 0x00, 0x00, 0x00, 0x80, 0x01, 0x45, 0x00, 0x00, 0x00, 0xC3, 0xA9, 0x2E,
     0x6A, 0x70, 0x67, 0x50, 0x4B, 0x05, 0x06, 0x00, 0x00, 0x00, 0x00, 0x03, 0x00, 0x03, 0x00,
     0x97, 0x00, 0x00, 0x00, 0x6A, 0x00, 0x00, 0x00, 0x00, 0x00]"

text \<open>The same archive with the signature of its second directory record overwritten.\<close>

definition corruptedArchive :: bytes where
  "corruptedArchive = take 157 exampleArchive @ [0x00] @ drop 158 exampleArchive"

text \<open>A server that ignores the \<open>Range\<close> header and always sends the whole resource.\<close>

definition wholeFileServer :: "bytes \<Rightarrow> server" where
  "wholeFileServer archive =
     \<lparr>onHead = Reply 200 (Some (showNat (length archive))),
      onRange = (\<lambda>start end. Reply 200 archive)\<rparr>"

text \<open>
  The entries of \<open>exampleArchive\<close> as the decoder returns them: the first and the third.
\<close>

definition pngEntry :: FileEntry where
  "pngEntry =
     \<lparr>fileName = js ''a.png'', compressedSize = 2, uncompressedSize = 2,
      fileNameLength = None, localHeaderOffset = 0, extraFieldLength = None,
      dataOffset = None, isDirectory = False, isImage = Some True\<rparr>"

definition accentEntry :: FileEntry where
  "accentEntry =
     \<lparr>fileName = [0xE9, 0x2E, 0x6A, 0x70, 0x67], compressedSize = 1, uncompressedSize = 1,
      fileNameLength = None, localHeaderOffset = 69, extraFieldLength = None,
      dataOffset = None, isDirectory = False, isImage = Some True\<rparr>"

text \<open>
  The end record's signature \<open>0x06054b50\<close>, little-endian, stands at position \<open>i\<close>;
  the last \<open>min(65557, length)\<close> bytes of an archive; the fixed 22-byte record decoded
  at a position.
\<close>

definition sigAt :: "bytes \<Rightarrow> nat \<Rightarrow> bool" where
  "sigAt b i =
     (i + 4 \<le> length b \<and> b ! i = 0x50 \<and> b ! (i + 1) = 0x4B \<and> b ! (i + 2) = 0x05
      \<and> b ! (i + 3) = 0x06)"

definition trailingWindow :: "bytes \<Rightarrow> bytes" where
  "trailingWindow archive = drop (length archive - min 65557 (length archive)) archive"

definition eocdAt :: "bytes \<Rightarrow> nat \<Rightarrow> EOCD" where
  "eocdAt b i =
     \<lparr>diskNumber = int (le16 b (i + 4)),
      centralDirDisk = int (le16 b (i + 6)),
      diskEntryCount = int (le16 b (i + 8)),
      totalEntryCount = int (le16 b (i + 10)),
      centralDirSize = int (le32 b (i + 12)),
      centralDirOffset = int (le32 b (i + 16)),
      commentLength = int (le16 b (i + 20)),
      absoluteOffset = Num 0\<rparr>"

text \<open>
  An archive without entries whose comment is the four bytes \<open>50 4B 05 06\<close>: the end
  record is at 0, the comment at 22.
\<close>

definition commentArchive :: bytes where
  "commentArchive =
     [0x50, 0x4B, 0x05, 0x06, 0x00, 0x00, 0x00, 0x00, 0x00, 0x00, 0x00, 0x00,
      0x00, 0x00, 0x00, 0x00, 0x00, 0x00, 0x00, 0x00, 0x04, 0x00,
      0x50, 0x4B, 0x05, 0x06]"

text \<open>
  A well-formed archive, as far as a listing reads it: any bytes \<open>prefix\<close> (the local
  headers and the file data), then the central directory, a sequence of records each of
  which starts with the signature \<open>0x02014b50\<close> and is as long as its three length fields
  say, then the 22-byte end record, whose fields give the number of records, the size of
  the directory, its offset and the length of the comment, then the comment.
\<close>

definition wellFormedRecord :: "bytes \<Rightarrow> bool" where
  "wellFormedRecord r =
     (46 \<le> length r \<and> le32 r 0 = 0x02014b50 \<and> length r = entrySizeAt r 0)"

definition wellFormedArchive ::
  "bytes \<Rightarrow> bytes \<Rightarrow> bytes list \<Rightarrow> bytes \<Rightarrow> bytes \<Rightarrow> bool" where
  "wellFormedArchive archive prefix records eocd comment =
     (archive = prefix @ concat records @ eocd @ comment
      \<and> (\<forall>r \<in> set records. wellFormedRecord r)
      \<and> length eocd = 22 \<and> sigAt eocd 0
      \<and> le16 eocd 10 = length records
      \<and> le32 eocd 12 = length (concat records)
      \<and> le32 eocd 16 = length prefix
      \<and> le16 eocd 20 = length comment)"

text \<open>
  An archive of one entry, \<open>a.png\<close>, whose comment has the greatest length, 65535, and
  ends with the 22 bytes of the end record of an empty archive.
\<close>

definition oneEntryEOCD :: bytes where
  "oneEntryEOCD =
     [0x50, 0x4B, 0x05, 0x06, 0x00, 0x00, 0x00, 0x00, 0x01, 0x00, 0x01, 0x00,
      0x33, 0x00, 0x00, 0x00, 0x25, 0x00, 0x00, 0x00, 0xFF, 0xFF]"

definition emptyEOCD :: bytes where
  "emptyEOCD =
     [0x50, 0x4B, 0x05, 0x06, 0x00, 0x00, 0x00, 0x00, 0x00, 0x00, 0x00, 0x00,
      0x00, 0x00, 0x00, 0x00, 0x00, 0x00, 0x00, 0x00, 0x00, 0x00]"

definition forgedComment :: bytes where
  "forgedComment = replicate 65513 0x20 @ emptyEOCD"

definition forgedArchive :: bytes where
  "forgedArchive =
     take 37 exampleArchive @ slice exampleArchive 106 157 @ oneEntryEOCD @ forgedComment"

text \<open>The second entry of \<open>exampleArchive\<close> as the decoder returns it.\<close>

definition dirEntry :: FileEntry where
  "dirEntry =
     \<lparr>fileName = js ''d/'', compressedSize = 0, uncompressedSize = 0,
      fileNameLength = None, localHeaderOffset = 37, extraFieldLength = None,
      dataOffset = None, isDirectory = True, isImage = Some False\<rparr>"

text \<open>The same archive with a comment of 65535 spaces.\<close>

definition paddedArchive :: bytes where
  "paddedArchive =
     take 37 exampleArchive @ slice exampleArchive 106 157 @ oneEntryEOCD
       @ replicate 65535 0x20"

text \<open>
  An end record alone, 22 bytes, that announces one directory record of 46 bytes at
  offset 1000, behind the end of the resource; and a server whose every request is
  rejected.
\<close>

definition truncatedArchive :: bytes where
  "truncatedArchive =
     [0x50, 0x4B, 0x05, 0x06, 0x00, 0x00, 0x00, 0x00, 0x01, 0x00, 0x01, 0x00,
      0x2E, 0x00, 0x00, 0x00, 0xE8, 0x03, 0x00, 0x00, 0x00, 0x00]"

definition unreachableServer :: server where
  "unreachableServer = \<lparr>onHead = Rejected, onRange = (\<lambda>start end. Rejected)\<rparr>"

section \<open>Properties\<close>

subsection \<open>Reading and decoding\<close>

lemma parseCentralDirEntry_eq:
  "parseCentralDirEntry lc buffer offset =
     (if length buffer < offset + 4 then Inl RangeError
      else if le32 buffer offset \<noteq> 0x02014b50 then Inl InvalidCentralDirSignature
      else if length buffer < offset + 46 then Inl RangeError
      else Inr (entryAt lc buffer offset, offset + entrySizeAt buffer offset))"
  by (auto simp add: parseCentralDirEntry_def bindE_def getUint32_def getUint16_def
        entryAt_def entrySizeAt_def Let_def)

lemma parseCentralDirEntry_InrD:
  assumes "parseCentralDirEntry lc buffer offset = Inr (entry, nextOffset)"
  shows "entry = entryAt lc buffer offset"
    and "nextOffset = offset + entrySizeAt buffer offset"
    and "offset + 46 \<le> length buffer"
    and "le32 buffer offset = 0x02014b50"
  using assms by (auto simp add: parseCentralDirEntry_eq split: if_splits)

lemma endsWith_iff: "endsWith s t = (\<exists>pre. s = pre @ t)"
  unfolding endsWith_def
proof
  assume a: "length t \<le> length s \<and> drop (length s - length t) s = t"
  then have "s = take (length s - length t) s @ t"
    by (metis append_take_drop_id)
  then show "\<exists>pre. s = pre @ t" ..
next
  assume "\<exists>pre. s = pre @ t"
  then show "length t \<le> length s \<and> drop (length s - length t) s = t" by auto
qed

lemmas eval_defs =
  le32_def le16_def entryAt_def entrySizeAt_def slice_def textDecode_def utf8First_def
  utf16_def js_def endsWith_def isImageName_def asciiLower_def

lemma example_directory_records:
  "parseCentralDirEntry asciiLower (slice exampleArchive 106 257) 0 =
     Inr (\<lparr>fileName = js ''a.png'', compressedSize = 2, uncompressedSize = 2,
            fileNameLength = None, localHeaderOffset = 0, extraFieldLength = None,
            dataOffset = None, isDirectory = False, isImage = Some True\<rparr>, 51)"
  "parseCentralDirEntry asciiLower (slice exampleArchive 106 257) 51 =
     Inr (\<lparr>fileName = js ''d/'', compressedSize = 0, uncompressedSize = 0,
            fileNameLength = None, localHeaderOffset = 37, extraFieldLength = None,
            dataOffset = None, isDirectory = True, isImage = Some False\<rparr>, 99)"
  "parseCentralDirEntry asciiLower (slice exampleArchive 106 257) 99 =
     Inr (\<lparr>fileName = [0xE9, 0x2E, 0x6A, 0x70, 0x67], compressedSize = 1,
            uncompressedSize = 1, fileNameLength = None, localHeaderOffset = 69,
            extraFieldLength = None, dataOffset = None, isDirectory = False,
            isImage = Some True\<rparr>, 151)"
  by (simp_all add: parseCentralDirEntry_eq exampleArchive_def eval_defs)

text \<open>
  Claim C8. A decoded entry is a directory exactly when its name ends with the path
  separator \<open>/\<close>, and an image exactly when it is not a directory and its lower-cased name
  ends with \<open>.jpg\<close>, \<open>.jpeg\<close> or \<open>.png\<close>.
\<close>

theorem parseCentralDirEntry_classifies:
  assumes "parseCentralDirEntry lc buffer offset = Inr (entry, nextOffset)"
  shows "isDirectory entry = (\<exists>pre. fileName entry = pre @ js ''/'')
       \<and> isImage entry =
           Some (\<not> isDirectory entry \<and>
                 ((\<exists>pre. lc (fileName entry) = pre @ js ''.jpg'') \<or>
                  (\<exists>pre. lc (fileName entry) = pre @ js ''.jpeg'') \<or>
                  (\<exists>pre. lc (fileName entry) = pre @ js ''.png'')))"
proof -
  have e: "entry = entryAt lc buffer offset"
    using assms by (rule parseCentralDirEntry_InrD)
  show ?thesis
    unfolding e by (simp add: entryAt_def Let_def isImageName_def endsWith_iff)
qed

theorem parseCentralDirEntry_classifies_witness:
  "parseCentralDirEntry asciiLower (slice exampleArchive 106 257) 51 =
     Inr (\<lparr>fileName = js ''d/'', compressedSize = 0, uncompressedSize = 0,
            fileNameLength = None, localHeaderOffset = 37, extraFieldLength = None,
            dataOffset = None, isDirectory = True, isImage = Some False\<rparr>, 99)
   \<and> (\<exists>pre. js ''d/'' = pre @ js ''/'')"
  using parseCentralDirEntry_classifies [OF example_directory_records(2)]
    example_directory_records(2)
  by simp

subsection \<open>Offset resolution\<close>


lemma dataOffset_calculateFileDataOffset:
  "dataOffset (calculateFileDataOffset e) =
     Some (localHeaderOffset e + 30 + int (length (fileName e)))"
  by (simp add: calculateFileDataOffset_def Let_def)

lemma fileName_calculateFileDataOffset:
  "fileName (calculateFileDataOffset e) = fileName e"
  by (simp add: calculateFileDataOffset_def Let_def)

lemma localHeaderOffset_calculateFileDataOffset:
  "localHeaderOffset (calculateFileDataOffset e) = localHeaderOffset e"
  by (simp add: calculateFileDataOffset_def Let_def)

subsection \<open>The fetcher\<close>

lemma fetchRange_state:
  "snd (fetchRange srv s e this) = this\<lparr>requests := requests this @ [GetRange s e]\<rparr>"
  by (simp add: fetchRange_def Let_def split: reply.splits)

lemma fetchRange_result:
  "fst (fetchRange srv s e this) =
     (case onRange srv s e of
        Rejected \<Rightarrow> Inl FetchRejected
      | Reply status body \<Rightarrow> if ok status then Inr body else Inl (HttpError status))"
  by (simp add: fetchRange_def Let_def split: reply.splits)

lemma fetchRange_eq:
  "fetchRange srv s e this =
     (case onRange srv s e of
        Rejected \<Rightarrow> Inl FetchRejected
      | Reply status body \<Rightarrow> if ok status then Inr body else Inl (HttpError status),
      this\<lparr>requests := requests this @ [GetRange s e]\<rparr>)"
  by (simp add: fetchRange_def Let_def split: reply.splits)

lemma staticServer_range:
  assumes "0 \<le> s" "s \<le> e" "s < int (length archive)"
  shows "onRange (staticServer archive) (Num s) (Num e)
           = Reply 206 (slice archive (nat s) (nat e + 1))"
  using assms by (simp add: staticServer_def)

lemma staticServer_invalid_range:
  assumes "e < s"
  shows "onRange (staticServer archive) (Num s) (Num e) = Reply 200 archive"
  using assms by (simp add: staticServer_def)

lemma length_slice: "e \<le> length b \<Longrightarrow> length (slice b s e) = e - s"
  by (simp add: slice_def)

text \<open>
  Claim C2, as the code has it. A range read fails exactly when the fetch is rejected or
  the response status is not a success; otherwise it returns the body of the response as
  it came, whatever its length. When the server serves the requested range exactly, as
  the static server does for a range inside the resource, the buffer has length
  \<open>end - start + 1\<close>.
\<close>

theorem fetchRange_returns_body:
  "fst (fetchRange srv start end this) =
     (case onRange srv start end of
        Rejected \<Rightarrow> Inl FetchRejected
      | Reply status body \<Rightarrow> if ok status then Inr body else Inl (HttpError status))
   \<and> (0 \<le> s \<and> s \<le> e \<and> e < int (length archive) \<longrightarrow>
        (\<exists>buffer. fst (fetchRange (staticServer archive) (Num s) (Num e) this) = Inr buffer
           \<and> buffer = slice archive (nat s) (nat e + 1)
           \<and> int (length buffer) = e - s + 1))"
proof -
  have "fst (fetchRange (staticServer archive) (Num s) (Num e) this)
          = Inr (slice archive (nat s) (nat e + 1))
        \<and> int (length (slice archive (nat s) (nat e + 1))) = e - s + 1"
    if "0 \<le> s" "s \<le> e" "e < int (length archive)"
    using that by (simp add: fetchRange_result staticServer_range ok_def length_slice)
  then show ?thesis
    by (simp add: fetchRange_result)
qed

theorem fetchRange_returns_body_witness:
  "fst (fetchRange (staticServer exampleArchive) (Num 105) (Num 105) (newZipReader ''u''))
     = Inr [0x7A]"
proof -
  have h: "(0::int) \<le> 105 \<and> (105::int) \<le> 105 \<and> (105::int) < int (length exampleArchive)"
    by (simp add: exampleArchive_def)
  from fetchRange_returns_body [THEN conjunct2, THEN mp, OF h]
  show ?thesis
    by (auto simp add: exampleArchive_def slice_def)
qed

text \<open>
  Claim C2 as stated fails: asked for the ten bytes 0 to 9 of a resource of three bytes,
  the server answers with the three bytes there are, and the read returns them.
\<close>

theorem fetchRange_accepts_short_body:
  "fst (fetchRange (staticServer [0x01, 0x02, 0x03]) (Num 0) (Num 9) (newZipReader ''u''))
     = Inr [0x01, 0x02, 0x03]
   \<and> int (length [0x01, 0x02, 0x03 :: 8 word]) \<noteq> 9 - 0 + 1"
  by (simp add: fetchRange_result staticServer_def slice_def ok_def)

subsection \<open>The static server\<close>

declare showNat.simps [simp del]
declare scanEOCD.simps [simp del]

lemma digitChar_props:
  assumes "d < 10"
  shows "isDigit (digitChar d)" and "digitValue (digitChar d) = d"
    and "\<not> isWhiteSpace (digitChar d)"
    and "digitChar d \<noteq> CHR ''-''" and "digitChar d \<noteq> CHR ''+''"
proof -
  have "d = 0 \<or> d = 1 \<or> d = 2 \<or> d = 3 \<or> d = 4 \<or> d = 5 \<or> d = 6 \<or> d = 7 \<or> d = 8 \<or> d = 9"
    using assms by arith
  then show "isDigit (digitChar d)" and "digitValue (digitChar d) = d"
    and "\<not> isWhiteSpace (digitChar d)"
    and "digitChar d \<noteq> CHR ''-''" and "digitChar d \<noteq> CHR ''+''"
    by (auto simp add: digitChar_def isDigit_def digitValue_def isWhiteSpace_def)
qed

lemma showNat_digits: "c \<in> set (showNat n) \<Longrightarrow> isDigit c"
proof (induction n rule: showNat.induct)
  case (1 n)
  show ?case
  proof (cases "n < 10")
    case True
    with "1.prems" show ?thesis
      by (simp add: showNat.simps [of n] digitChar_props)
  next
    case False
    have "n mod 10 < 10" by simp
    with False "1.prems" "1.IH" show ?thesis
      by (auto simp add: showNat.simps [of n] digitChar_props)
  qed
qed

lemma showNat_not_Nil: "showNat n \<noteq> []"
  by (simp add: showNat.simps [of n])

lemma digitsValue_snoc: "digitsValue (ds @ [c]) = 10 * digitsValue ds + digitValue c"
  by (simp add: digitsValue_def)

lemma digitsValue_showNat: "digitsValue (showNat n) = n"
proof (induction n rule: showNat.induct)
  case (1 n)
  show ?case
  proof (cases "n < 10")
    case True
    then show ?thesis
      by (simp add: showNat.simps [of n] digitsValue_def digitChar_props)
  next
    case False
    have "n mod 10 < 10" by simp
    then have "digitValue (digitChar (n mod 10)) = n mod 10"
      by (rule digitChar_props)
    with False "1.IH" show ?thesis
      by (simp add: showNat.simps [of n] digitsValue_snoc)
  qed
qed

lemma parseInt10_digits:
  assumes "s \<noteq> []" and "\<forall>c \<in> set s. isDigit c"
  shows "parseInt10 s = Num (int (digitsValue s))"
proof -
  obtain c cs where s: "s = c # cs"
    using assms(1) by (cases s) auto
  have c: "isDigit c" using assms(2) s by simp
  have w: "\<not> isWhiteSpace c" and m: "c \<noteq> CHR ''-''" and p: "c \<noteq> CHR ''+''"
    using c by (auto simp add: isDigit_def isWhiteSpace_def)
  have t: "takeWhile isDigit cs = cs"
    using assms(2) s by (simp add: takeWhile_eq_all_conv)
  show ?thesis
    using w m p c by (simp add: parseInt10_def s Let_def t)
qed

lemma parseInt10_showNat: "parseInt10 (showNat n) = Num (int n)"
  using parseInt10_digits [of "showNat n"] showNat_digits [of _ n] showNat_not_Nil [of n]
  by (simp add: digitsValue_showNat)

lemma getFileSize_staticServer:
  "getFileSize (staticServer archive) this =
     (Inr (Num (int (length archive))),
      this\<lparr>requests := requests this @ [Head], fileSize := Num (int (length archive))\<rparr>)"
  by (simp add: getFileSize_def staticServer_def ok_def Let_def parseInt10_showNat showNat_not_Nil)

subsection \<open>The cached length\<close>

lemma getFileSize_InrD:
  assumes "getFileSize srv this = (Inr n, this1)"
  shows "\<exists>status s. onHead srv = Reply status (Some s) \<and> ok status \<and> s \<noteq> []
            \<and> n = parseInt10 s"
    and "this1 = this\<lparr>requests := requests this @ [Head], fileSize := n\<rparr>"
  using assms
  by (auto simp add: getFileSize_def Let_def split: reply.splits option.splits if_splits)

lemma getFileSize_InlD:
  assumes "getFileSize srv this = (Inl err, this1)"
  shows "this1 = this\<lparr>requests := requests this @ [Head]\<rparr>"
  using assms
  by (auto simp add: getFileSize_def Let_def split: reply.splits option.splits if_splits)

lemma getFileSize_again:
  assumes "getFileSize srv this = (Inr n, this1)"
  shows "getFileSize srv this' = (Inr n, this'\<lparr>requests := requests this' @ [Head], fileSize := n\<rparr>)"
  using getFileSize_InrD(1) [OF assms]
  by (auto simp add: getFileSize_def Let_def)

lemma fileSize_readCentralDirectory:
  "fileSize (snd (readCentralDirectory lc srv eocd this)) = fileSize this"
  by (simp add: readCentralDirectory_def Let_def fetchRange_eq split: reply.splits)

lemma fileSize_extractFile:
  "fileSize (snd (snd (extractFile lc srv entry this))) = fileSize this"
  by (simp add: extractFile_def Let_def fetchRange_eq split: reply.splits)

lemma fileSize_findEOCD_known:
  assumes "\<not> falsy (fileSize this)"
  shows "fileSize (snd (findEOCD srv this)) = fileSize this"
  using assms
  by (simp add: findEOCD_def Let_def fetchRange_eq split: reply.splits)

lemma fileSize_findEOCD_same_server:
  assumes "getFileSize srv this0 = (Inr n, this)"
  shows "fileSize (snd (findEOCD srv this)) = n"
proof (cases "falsy (fileSize this)")
  case False
  then show ?thesis
    using getFileSize_InrD(2) [OF assms] by (simp add: fileSize_findEOCD_known)
next
  case True
  have n: "fileSize this = n"
    using getFileSize_InrD(2) [OF assms] by simp
  show ?thesis
    using True
    by (simp add: findEOCD_def Let_def getFileSize_again [OF assms] fetchRange_eq
        split: reply.splits)
qed

lemma fileSize_readTableOfContents:
  "fileSize (snd (readTableOfContents lc srv this)) = fileSize (snd (findEOCD srv this))"
proof (cases "findEOCD srv this")
  case (Pair r this1)
  show ?thesis
  proof (cases r)
    case (Inl e)
    with Pair show ?thesis by (simp add: readTableOfContents_def)
  next
    case (Inr eocd)
    have "fileSize (snd (readCentralDirectory lc srv eocd this1)) = fileSize this1"
      by (rule fileSize_readCentralDirectory)
    with Pair Inr show ?thesis
      by (cases "readCentralDirectory lc srv eocd this1")
        (auto simp add: readTableOfContents_def split: sum.splits)
  qed
qed

lemma example_sizes:
  "getFileSize (staticServer [0x00]) (newZipReader ''u'')
     = (Inr (Num 1), \<lparr>url = ''u'', fileSize = Num 1, requests = [Head]\<rparr>)"
  "getFileSize (staticServer [0x00, 0x00]) \<lparr>url = ''u'', fileSize = Num 1, requests = [Head]\<rparr>
     = (Inr (Num 2), \<lparr>url = ''u'', fileSize = Num 2, requests = [Head, Head]\<rparr>)"
  by (simp_all add: getFileSize_def staticServer_def newZipReader_def ok_def parseInt10_def
      isWhiteSpace_def isDigit_def digitsValue_def digitValue_def digitChar_def Let_def
      showNat.simps)

subsection \<open>Extraction\<close>

lemma unresolved_iff: "unresolved entry = (dataOffset entry = None \<or> dataOffset entry = Some 0)"
  by (cases "dataOffset entry") (simp_all add: unresolved_def)

lemma extractFile_resolved:
  assumes "dataOffset entry = Some d" "d \<noteq> 0"
  shows "extractFile lc srv entry this =
     (case onRange srv (Num d) (Num (d + compressedSize entry - 1)) of
        Rejected \<Rightarrow> Inl FetchRejected
      | Reply status body \<Rightarrow>
          if ok status then
            Inr \<lparr>blobData = body,
                 blobType =
                   (if endsWith (lc (fileName entry)) (js ''.png'') then ''image/png''
                    else if endsWith (lc (fileName entry)) (js ''.jpg'')
                         \<or> endsWith (lc (fileName entry)) (js ''.jpeg'') then ''image/jpeg''
                    else [])\<rparr>
          else Inl (HttpError status),
      entry,
      this\<lparr>requests := requests this @ [GetRange (Num d) (Num (d + compressedSize entry - 1))]\<rparr>)"
  using assms
  by (auto simp add: extractFile_def unresolved_iff Let_def fetchRange_eq isImageName_def
      split: reply.splits)

text \<open>
  Claim C6, as the code has it. Extracting a resolved entry issues exactly one range read,
  over \<open>[dataOffset, dataOffset + compressedSize - 1]\<close>, and on a successful response
  returns the body as it came, with type \<open>image/png\<close> when the lower-cased name ends with
  \<open>.png\<close>, \<open>image/jpeg\<close> when it ends with \<open>.jpg\<close> or \<open>.jpeg\<close>, and no type
  otherwise. When the entry has at least one byte and its data lies inside the archive,
  the static server makes the buffer as long as the recorded compressed size.
\<close>

theorem extractFile_resolved_entry:
  assumes "dataOffset entry = Some d" and "d \<noteq> 0"
  shows "requests (snd (snd (extractFile lc srv entry this)))
           = requests this @ [GetRange (Num d) (Num (d + compressedSize entry - 1))]
       \<and> fst (extractFile lc srv entry this) =
           (case onRange srv (Num d) (Num (d + compressedSize entry - 1)) of
              Rejected \<Rightarrow> Inl FetchRejected
            | Reply status body \<Rightarrow>
                if ok status then
                  Inr \<lparr>blobData = body,
                       blobType =
                         (if endsWith (lc (fileName entry)) (js ''.png'') then ''image/png''
                          else if endsWith (lc (fileName entry)) (js ''.jpg'')
                               \<or> endsWith (lc (fileName entry)) (js ''.jpeg'')
                          then ''image/jpeg''
                          else [])\<rparr>
                else Inl (HttpError status))
       \<and> (0 < d \<and> 1 \<le> compressedSize entry
             \<and> d + compressedSize entry \<le> int (length archive) \<longrightarrow>
           (\<exists>blob. fst (extractFile lc (staticServer archive) entry this) = Inr blob
              \<and> blobData blob = slice archive (nat d) (nat (d + compressedSize entry))
              \<and> int (length (blobData blob)) = compressedSize entry))"
proof -
  have "\<exists>blob. fst (extractFile lc (staticServer archive) entry this) = Inr blob
              \<and> blobData blob = slice archive (nat d) (nat (d + compressedSize entry))
              \<and> int (length (blobData blob)) = compressedSize entry"
    if h: "0 < d" "1 \<le> compressedSize entry" "d + compressedSize entry \<le> int (length archive)"
  proof -
    have n: "nat (d + compressedSize entry - 1) + 1 = nat (d + compressedSize entry)"
      using h by simp
    have "onRange (staticServer archive) (Num d) (Num (d + compressedSize entry - 1))
               = Reply 206 (slice archive (nat d) (nat (d + compressedSize entry - 1) + 1))"
      using h by (intro staticServer_range) auto
    then have r: "onRange (staticServer archive) (Num d) (Num (d + compressedSize entry - 1))
               = Reply 206 (slice archive (nat d) (nat (d + compressedSize entry)))"
      by (simp only: n)
    have l: "int (length (slice archive (nat d) (nat (d + compressedSize entry))))
               = compressedSize entry"
      using h by (simp add: length_slice)
    show ?thesis
      using l by (simp add: extractFile_resolved [OF assms] r ok_def)
  qed
  then show ?thesis
    by (simp add: extractFile_resolved [OF assms])
qed

theorem extractFile_resolved_entry_witness:
  "fst (extractFile asciiLower (staticServer exampleArchive)
          (pngEntry\<lparr>dataOffset := Some 35\<rparr>) (newZipReader ''u''))
     = Inr \<lparr>blobData = [0x78, 0x79], blobType = ''image/png''\<rparr>
   \<and> requests (snd (snd (extractFile asciiLower (staticServer exampleArchive)
          (pngEntry\<lparr>dataOffset := Some 35\<rparr>) (newZipReader ''u''))))
     = [GetRange (Num 35) (Num 36)]"
proof -
  have a: "dataOffset (pngEntry\<lparr>dataOffset := Some 35\<rparr>) = Some 35" "(35::int) \<noteq> 0"
    by simp_all
  have b: "(0::int) < 35 \<and> 1 \<le> compressedSize (pngEntry\<lparr>dataOffset := Some 35\<rparr>)
             \<and> 35 + compressedSize (pngEntry\<lparr>dataOffset := Some 35\<rparr>)
                 \<le> int (length exampleArchive)"
    by (simp add: pngEntry_def exampleArchive_def)
  note t = extractFile_resolved_entry [OF a, of asciiLower _ "newZipReader ''u''" exampleArchive]
  from t [of "staticServer exampleArchive", THEN conjunct1]
    t [of "staticServer exampleArchive", THEN conjunct2, THEN conjunct1]
    t [of "staticServer exampleArchive", THEN conjunct2, THEN conjunct2, THEN mp, OF b]
  show ?thesis
    by (auto simp add: pngEntry_def exampleArchive_def newZipReader_def staticServer_def
        ok_def eval_defs)
qed

text \<open>
  Claim C6 as stated fails: a server may ignore the \<open>Range\<close> header and answer 200 with
  the whole resource; the extractor then returns all 279 bytes of the archive for an
  entry of 2 bytes.
\<close>

theorem extractFile_accepts_any_body:
  "fst (extractFile asciiLower (wholeFileServer exampleArchive)
          (pngEntry\<lparr>dataOffset := Some 35\<rparr>) (newZipReader ''u''))
     = Inr \<lparr>blobData = exampleArchive, blobType = ''image/png''\<rparr>
   \<and> compressedSize (pngEntry\<lparr>dataOffset := Some 35\<rparr>) = 2
   \<and> length exampleArchive = 279"
  by (simp add: extractFile_resolved [of _ 35] wholeFileServer_def ok_def pngEntry_def
      asciiLower_def js_def endsWith_def)
    (simp add: exampleArchive_def)

text \<open>
  An entry of no bytes: the range \<open>[d, d - 1]\<close> is not a valid one, and the static server
  answers with the whole archive.
\<close>

lemma extractFile_empty_entry:
  assumes "dataOffset entry = Some d" and "d \<noteq> 0" and "compressedSize entry = 0"
  shows "\<exists>blob. fst (extractFile lc (staticServer archive) entry this) = Inr blob
           \<and> blobData blob = archive"
  using assms(3)
  by (simp add: extractFile_resolved [OF assms(1,2)] staticServer_invalid_range ok_def)

subsection \<open>Resolved and unresolved entries\<close>

lemma extractFile_entry:
  "fst (snd (extractFile lc srv entry this))
     = (if unresolved entry then calculateFileDataOffset entry else entry)"
  by (simp add: extractFile_def Let_def fetchRange_eq split: reply.splits)


text \<open>
  Claim C10. An entry that the decoder returns has a local header offset of at least 0
  and no data offset. The extractor's test is true exactly for an entry whose data offset
  is absent or 0: it then resolves the entry and reads from the resolved offset; for any
  other entry it leaves the entry, whatever its data offset, as it is and reads from that
  offset. Resolution gives the local header offset plus 30 plus the length of the name,
  which for a decoded entry is at least 30 and so not 0. Hence for the entries of a
  listing the test is true exactly when the data offset was never set, and a resolved
  entry is not resolved again.
\<close>

theorem resolved_offset_at_least_30:
  assumes "parseCentralDirEntry lc buffer offset = Inr (entry, nextOffset)"
  shows "0 \<le> localHeaderOffset entry
       \<and> dataOffset entry = None
       \<and> dataOffset (calculateFileDataOffset entry)
           = Some (localHeaderOffset entry + 30 + int (length (fileName entry)))
       \<and> 30 \<le> localHeaderOffset entry + 30 + int (length (fileName entry))
       \<and> unresolved entry
       \<and> \<not> unresolved (calculateFileDataOffset entry)
       \<and> unresolved (processEntry entry) = (dataOffset (processEntry entry) = None)
       \<and> (\<forall>e. unresolved e = (dataOffset e = None \<or> dataOffset e = Some 0))
       \<and> (\<forall>e. unresolved e \<longrightarrow>
             fst (snd (extractFile lc' srv e this)) = calculateFileDataOffset e
             \<and> requests (snd (snd (extractFile lc' srv e this))) =
                 requests this @
                 [GetRange (Num (localHeaderOffset e + 30 + int (length (fileName e))))
                    (Num (localHeaderOffset e + 30 + int (length (fileName e))
                          + compressedSize e - 1))])
       \<and> (\<forall>e d. dataOffset e = Some d \<and> d \<noteq> 0 \<longrightarrow>
             fst (snd (extractFile lc' srv e this)) = e
             \<and> requests (snd (snd (extractFile lc' srv e this))) =
                 requests this @ [GetRange (Num d) (Num (d + compressedSize e - 1))])"
proof -
  have e: "entry = entryAt lc buffer offset"
    using assms by (rule parseCentralDirEntry_InrD)
  have a: "0 \<le> localHeaderOffset entry" "dataOffset entry = None"
    unfolding e by (simp_all add: entryAt_def Let_def)
  have u: "unresolved entry"
    using a by (simp add: unresolved_iff)
  have r: "\<not> unresolved (calculateFileDataOffset entry)"
    using a by (simp add: unresolved_iff dataOffset_calculateFileDataOffset)
  have p: "unresolved (processEntry entry) = (dataOffset (processEntry entry) = None)"
    using a r u by (simp add: processEntry_def unresolved_iff dataOffset_calculateFileDataOffset)
  have x: "fst (snd (extractFile lc' srv e this)) = calculateFileDataOffset e
             \<and> requests (snd (snd (extractFile lc' srv e this))) =
                 requests this @
                 [GetRange (Num (localHeaderOffset e + 30 + int (length (fileName e))))
                    (Num (localHeaderOffset e + 30 + int (length (fileName e))
                          + compressedSize e - 1))]"
    if "unresolved e" for e
    using that
    by (simp add: extractFile_def Let_def fetchRange_eq calculateFileDataOffset_def
        split: reply.splits)
  have y: "fst (snd (extractFile lc' srv e this)) = e
             \<and> requests (snd (snd (extractFile lc' srv e this))) =
                 requests this @ [GetRange (Num d) (Num (d + compressedSize e - 1))]"
    if "dataOffset e = Some d \<and> d \<noteq> 0" for e d
    using that by (simp add: extractFile_resolved [of e d])
  have b: "30 \<le> localHeaderOffset entry + 30 + int (length (fileName entry))"
    using a(1) by simp
  have g: "\<forall>e. unresolved e = (dataOffset e = None \<or> dataOffset e = Some 0)"
    by (simp add: unresolved_iff)
  note c = dataOffset_calculateFileDataOffset [of entry]
  show ?thesis
    by (intro conjI allI impI)
      (fact a b c u r p g [rule_format] x [THEN conjunct1] x [THEN conjunct2]
         y [THEN conjunct1] y [THEN conjunct2])+
qed

theorem resolved_offset_at_least_30_witness:
  "parseCentralDirEntry asciiLower (slice exampleArchive 106 257) 0 = Inr (pngEntry, 51)
   \<and> unresolved pngEntry
   \<and> dataOffset (calculateFileDataOffset pngEntry) = Some 35
   \<and> \<not> unresolved (calculateFileDataOffset pngEntry)
   \<and> fst (snd (extractFile asciiLower (staticServer exampleArchive) pngEntry
        (newZipReader ''u''))) = calculateFileDataOffset pngEntry
   \<and> requests (snd (snd (extractFile asciiLower (staticServer exampleArchive) pngEntry
        (newZipReader ''u'')))) = [GetRange (Num 35) (Num 36)]
   \<and> fst (snd (extractFile asciiLower (staticServer exampleArchive)
        (pngEntry\<lparr>dataOffset := Some 99\<rparr>) (newZipReader ''u'')))
       = pngEntry\<lparr>dataOffset := Some 99\<rparr>
   \<and> requests (snd (snd (extractFile asciiLower (staticServer exampleArchive)
        (pngEntry\<lparr>dataOffset := Some 99\<rparr>) (newZipReader ''u''))))
       = [GetRange (Num 99) (Num 100)]"
proof -
  have h: "parseCentralDirEntry asciiLower (slice exampleArchive 106 257) 0 = Inr (pngEntry, 51)"
    by (simp add: example_directory_records pngEntry_def)
  note t = resolved_offset_at_least_30 [OF h, of asciiLower "staticServer exampleArchive"
      "newZipReader ''u''"]
  have u: "unresolved pngEntry"
    using t by simp
  have d: "dataOffset (pngEntry\<lparr>dataOffset := Some 99\<rparr>) = Some 99 \<and> (99::int) \<noteq> 0"
    by simp
  have 1: "fst (snd (extractFile asciiLower (staticServer exampleArchive) pngEntry
        (newZipReader ''u''))) = calculateFileDataOffset pngEntry
    \<and> requests (snd (snd (extractFile asciiLower (staticServer exampleArchive) pngEntry
        (newZipReader ''u'')))) =
         requests (newZipReader ''u'') @
                 [GetRange (Num (localHeaderOffset pngEntry + 30 + int (length (fileName pngEntry))))
                    (Num (localHeaderOffset pngEntry + 30 + int (length (fileName pngEntry))
                          + compressedSize pngEntry - 1))]"
    using t u by blast
  have 2: "fst (snd (extractFile asciiLower (staticServer exampleArchive)
        (pngEntry\<lparr>dataOffset := Some 99\<rparr>) (newZipReader ''u'')))
       = pngEntry\<lparr>dataOffset := Some 99\<rparr>
     \<and> requests (snd (snd (extractFile asciiLower (staticServer exampleArchive)
        (pngEntry\<lparr>dataOffset := Some 99\<rparr>) (newZipReader ''u''))))
       = requests (newZipReader ''u'') @ [GetRange (Num 99)
           (Num (99 + compressedSize (pngEntry\<lparr>dataOffset := Some 99\<rparr>) - 1))]"
    using t d by blast
  have 3: "dataOffset (calculateFileDataOffset pngEntry) = Some 35"
    "\<not> unresolved (calculateFileDataOffset pngEntry)"
    using t by (simp_all add: pngEntry_def js_def)
  have 4: "requests (newZipReader ''u'') = []" "localHeaderOffset pngEntry = 0"
    "int (length (fileName pngEntry)) = 5" "compressedSize pngEntry = 2"
    "compressedSize (pngEntry\<lparr>dataOffset := Some 99\<rparr>) = 2"
    by (simp_all add: newZipReader_def pngEntry_def js_def)
  show ?thesis
    using h u 1 2 3 unfolding 4 by simp
qed

text \<open>
  Claim C9. Offset resolution is idempotent and deterministic: resolving an already
  resolved entry yields the same entry, in particular the same data offset, which is the
  value computed from the entry's local header offset and name alone. The resolver is a
  total function of the entry: it has no error result and no access to the server or to
  the reader. Accordingly an extraction, which resolves the entry first when it must,
  issues one request whatever the entry: the resolution step adds none.
\<close>

theorem calculateFileDataOffset_idempotent:
  "calculateFileDataOffset (calculateFileDataOffset e) = calculateFileDataOffset e
   \<and> dataOffset (calculateFileDataOffset (calculateFileDataOffset e))
       = dataOffset (calculateFileDataOffset e)
   \<and> dataOffset (calculateFileDataOffset e)
       = Some (localHeaderOffset e + 30 + int (length (fileName e)))
   \<and> length (requests (snd (snd (extractFile lc srv e this)))) = Suc (length (requests this))"
proof -
  have "length (requests (snd (snd (extractFile lc srv e this)))) = Suc (length (requests this))"
    by (simp add: extractFile_def Let_def fetchRange_eq split: reply.splits)
  then show ?thesis
    by (simp add: calculateFileDataOffset_def Let_def)
qed

subsection \<open>The length of a name\<close>

lemma utf8Decode_ascii:
  assumes "\<forall>b \<in> set bs. b \<le> 0x7F"
  shows "utf8Decode 0 0 0x80 0xBF bs = map unat bs"
  using assms by (induction bs) (simp_all add: utf8First_def)

lemma unat_byte_less: "unat (b :: 8 word) < 256"
  using unsigned_less [of b, where ?'a = nat] by simp

lemma dropBOM_ascii: "dropBOM (map unat (bs :: bytes)) = map unat bs"
proof (cases bs)
  case Nil
  then show ?thesis by simp
next
  case (Cons b bs')
  then show ?thesis using unat_byte_less [of b] by simp
qed

lemma utf16_byte: "utf16 (unat (b :: 8 word)) = [ucast b]"
  using unat_byte_less [of b] by (simp add: utf16_def)

lemma textDecode_ascii_eq:
  assumes "\<forall>b \<in> set bs. b \<le> 0x7F"
  shows "textDecode bs = map ucast bs"
proof -
  have "concat (map utf16 (map unat bs)) = map ucast bs"
    by (induction bs) (simp_all add: utf16_byte)
  then show ?thesis
    by (simp add: textDecode_def utf8Decode_ascii [OF assms] dropBOM_ascii)
qed

lemma unat_unit_of_byte: "unat (ucast (b :: 8 word) :: 16 word) = unat b"
  using unat_byte_less [of b] by (simp add: unsigned_ucast_eq take_bit_nat_eq_self)

lemma utf8ByteLength_ascii_Cons:
  assumes "b \<le> (0x7F :: 8 word)"
  shows "utf8ByteLength (ucast b # cs) = Suc (utf8ByteLength cs)"
proof -
  have u: "unat b \<le> 127"
    using assms by (simp add: word_le_nat_alt)
  have l: "(ucast b :: 16 word) < 0x80"
    using u by (simp add: word_less_nat_alt unat_unit_of_byte)
  have n: "\<not> (0xD800 \<le> (ucast b :: 16 word))"
    using u by (simp add: word_le_nat_alt unat_unit_of_byte)
  show ?thesis
    using l n by (cases cs) (simp_all add: unitBytes_def)
qed

text \<open>
  For a name of ASCII characters the decoded string has one code unit for each byte, and
  the two lengths agree.
\<close>

lemma textDecode_ascii:
  assumes "\<forall>b \<in> set bs. b \<le> 0x7F"
  shows "length (textDecode bs) = length bs"
    and "utf8ByteLength (textDecode bs) = length bs"
proof -
  show "length (textDecode bs) = length bs"
    by (simp add: textDecode_ascii_eq [OF assms])
  have "utf8ByteLength (map ucast bs) = length bs"
    using assms by (induction bs) (simp_all add: utf8ByteLength_ascii_Cons)
  then show "utf8ByteLength (textDecode bs) = length bs"
    by (simp add: textDecode_ascii_eq [OF assms])
qed

lemma calculateFileDataOffset_ascii_name:
  assumes "parseCentralDirEntry lc buffer offset = Inr (entry, nextOffset)"
    and "offset + 46 + le16 buffer (offset + 28) \<le> length buffer"
    and "\<forall>b \<in> set (slice buffer (offset + 46) (offset + 46 + le16 buffer (offset + 28))).
           b \<le> 0x7F"
  shows "dataOffset (calculateFileDataOffset entry)
           = Some (localHeaderOffset entry + 30 + int (utf8ByteLength (fileName entry)))"
    and "utf8ByteLength (fileName entry) = le16 buffer (offset + 28)"
proof -
  have e: "entry = entryAt lc buffer offset"
    using assms(1) by (rule parseCentralDirEntry_InrD)
  have n: "fileName entry
             = textDecode (slice buffer (offset + 46) (offset + 46 + le16 buffer (offset + 28)))"
    unfolding e by (simp add: entryAt_def Let_def)
  have l: "length (slice buffer (offset + 46) (offset + 46 + le16 buffer (offset + 28)))
             = le16 buffer (offset + 28)"
    using assms(2) by (simp add: length_slice)
  show "utf8ByteLength (fileName entry) = le16 buffer (offset + 28)"
    using textDecode_ascii(2) [OF assms(3)] l n by simp
  show "dataOffset (calculateFileDataOffset entry)
           = Some (localHeaderOffset entry + 30 + int (utf8ByteLength (fileName entry)))"
    using textDecode_ascii [OF assms(3)] n
    by (simp add: dataOffset_calculateFileDataOffset)
qed

text \<open>
  Claim C1 fails on a name with a character of more than one byte. The third record of
  \<open>exampleArchive\<close> names its file with six bytes, and the six bytes stand in the local
  header at 69, so that the content starts at 69 + 30 + 6 = 105. The decoded name has
  five code units; the resolver adds 5 and arrives at 104, and the extractor returns the
  last byte of the name in place of the content.
\<close>

theorem calculateFileDataOffset_counts_code_units:
  "parseCentralDirEntry asciiLower (slice exampleArchive 106 257) 99 = Inr (accentEntry, 151)
   \<and> slice exampleArchive (106 + 99 + 46) (106 + 99 + 46 + 6) = [0xC3, 0xA9, 0x2E, 0x6A, 0x70, 0x67]
   \<and> slice exampleArchive (69 + 30) (69 + 30 + 6) = [0xC3, 0xA9, 0x2E, 0x6A, 0x70, 0x67]
   \<and> utf8ByteLength (fileName accentEntry) = 6
   \<and> localHeaderOffset accentEntry + 30 + int (utf8ByteLength (fileName accentEntry)) = 105
   \<and> slice exampleArchive 105 106 = [0x7A]
   \<and> dataOffset (calculateFileDataOffset accentEntry) = Some 104
   \<and> fst (extractFile asciiLower (staticServer exampleArchive)
            (calculateFileDataOffset accentEntry) (newZipReader ''u''))
       = Inr \<lparr>blobData = [0x67], blobType = ''image/jpeg''\<rparr>"
proof -
  have a: "parseCentralDirEntry asciiLower (slice exampleArchive 106 257) 99
             = Inr (accentEntry, 151)"
    by (simp add: example_directory_records accentEntry_def)
  have b: "slice exampleArchive (106 + 99 + 46) (106 + 99 + 46 + 6)
             = [0xC3, 0xA9, 0x2E, 0x6A, 0x70, 0x67]"
       "slice exampleArchive (69 + 30) (69 + 30 + 6) = [0xC3, 0xA9, 0x2E, 0x6A, 0x70, 0x67]"
       "slice exampleArchive 105 106 = [0x7A]"
    by (simp_all add: exampleArchive_def slice_def)
  have c: "utf8ByteLength (fileName accentEntry) = 6" "localHeaderOffset accentEntry = 69"
    by (simp_all add: accentEntry_def unitBytes_def)
  have d: "dataOffset (calculateFileDataOffset accentEntry) = Some 104"
    by (simp add: dataOffset_calculateFileDataOffset accentEntry_def)
  have e: "fst (extractFile asciiLower (staticServer exampleArchive)
            (calculateFileDataOffset accentEntry) (newZipReader ''u''))
       = Inr \<lparr>blobData = [0x67], blobType = ''image/jpeg''\<rparr>"
    by (simp add: extractFile_resolved [OF d] staticServer_def ok_def
        fileName_calculateFileDataOffset)
      (simp add: calculateFileDataOffset_def accentEntry_def exampleArchive_def eval_defs)
  show ?thesis
    using a b c d e by simp
qed

subsection \<open>Locating the end record\<close>

lemma scan_test:
  assumes "0 \<le> i"
  shows "(byteAt b i = Some 0x50 \<and> byteAt b (i + 1) = Some 0x4b \<and>
          byteAt b (i + 2) = Some 0x05 \<and> byteAt b (i + 3) = Some 0x06) = sigAt b (nat i)"
proof -
  have n: "nat (i + 1) = nat i + 1" "nat (i + 2) = nat i + 2" "nat (i + 3) = nat i + 3"
    using assms by simp_all
  show ?thesis
    using assms unfolding byteAt_def sigAt_def n
    by (auto simp add: n)
qed

lemma scanEOCD_not_found:
  assumes "\<forall>j. int j \<le> i \<longrightarrow> \<not> sigAt b j"
  shows "scanEOCD b sp i = Inl EOCDNotFound"
  using assms
proof (induction b sp i rule: scanEOCD.induct)
  case (1 buffer startPos i)
  show ?case
  proof (cases "0 \<le> i")
    case False
    then show ?thesis by (simp add: scanEOCD.simps [of buffer startPos i])
  next
    case True
    have here: "\<not> sigAt buffer (nat i)"
      using "1.prems" True by simp
    have below: "\<forall>j. int j \<le> i - 1 \<longrightarrow> \<not> sigAt buffer j"
      using "1.prems" by simp
    have "scanEOCD buffer startPos (i - 1) = Inl EOCDNotFound"
      using "1.IH" True here below by (simp add: scan_test)
    then show ?thesis
      using True here by (subst scanEOCD.simps) (simp add: scan_test)
  qed
qed

lemma scanEOCD_found:
  assumes "p \<le> nat i" and "0 \<le> i" and "sigAt b p"
    and "\<forall>j. p < j \<and> j \<le> nat i \<longrightarrow> \<not> sigAt b j"
  shows "scanEOCD b sp i =
     bindE (parseEOCD (slice b p (p + 22)))
       (\<lambda>eocd. Inr (eocd\<lparr>absoluteOffset := numAdd sp (Num (int p))\<rparr>))"
  using assms
proof (induction b sp i rule: scanEOCD.induct)
  case (1 buffer startPos i)
  show ?case
  proof (cases "p = nat i")
    case True
    then show ?thesis
      using "1.prems" by (subst scanEOCD.simps) (simp add: scan_test)
  next
    case False
    then have lt: "p < nat i" using "1.prems"(1) by simp
    then have here: "\<not> sigAt buffer (nat i)"
      using "1.prems"(4) by simp
    have "scanEOCD buffer startPos (i - 1) =
      bindE (parseEOCD (slice buffer p (p + 22)))
       (\<lambda>eocd. Inr (eocd\<lparr>absoluteOffset := numAdd startPos (Num (int p))\<rparr>))"
    proof -
      have i1: "0 < i" and p1: "p \<le> nat (i - 1)"
        using lt by simp_all
      have q: "\<forall>j. p < j \<and> j \<le> nat (i - 1) \<longrightarrow> \<not> sigAt buffer j"
      proof (intro allI impI)
        fix j assume "p < j \<and> j \<le> nat (i - 1)"
        then have "p < j \<and> j \<le> nat i" by auto
        then show "\<not> sigAt buffer j" using "1.prems"(4) by blast
      qed
      show ?thesis
        using "1.IH" "1.prems"(2,3) here i1 p1 q by (simp add: scan_test)
    qed
    then show ?thesis
      using "1.prems"(2) here by (subst scanEOCD.simps) (simp add: scan_test)
  qed
qed

lemma nth_slice: "k < e - s \<Longrightarrow> e \<le> length b \<Longrightarrow> slice b s e ! k = b ! (s + k)"
  by (simp add: slice_def)

lemma le16_slice:
  assumes "k + 2 \<le> e - s" and "e \<le> length b"
  shows "le16 (slice b s e) k = le16 b (s + k)"
  using assms by (simp add: le16_def nth_slice add.assoc)

lemma le32_slice:
  assumes "k + 4 \<le> e - s" and "e \<le> length b"
  shows "le32 (slice b s e) k = le32 b (s + k)"
  using assms by (simp add: le32_def nth_slice add.assoc)

lemma sigAt_le32: "sigAt b p \<Longrightarrow> le32 b p = 0x06054b50"
  by (simp add: sigAt_def le32_def)

lemma parseEOCD_slice:
  assumes "sigAt b p" and "p + 22 \<le> length b"
  shows "parseEOCD (slice b p (p + 22)) = Inr (eocdAt b p)"
proof -
  have l: "length (slice b p (p + 22)) = 22"
    using assms(2) by (simp add: length_slice)
  have s: "le32 (slice b p (p + 22)) 0 = 0x06054b50"
    using le32_slice [of 0 "p + 22" p b] assms by (simp add: sigAt_le32)
  have f16: "le16 (slice b p (p + 22)) k = le16 b (p + k)" if "k + 2 \<le> 22" for k
    using that assms(2) by (simp add: le16_slice)
  have f32: "le32 (slice b p (p + 22)) k = le32 b (p + k)" if "k + 4 \<le> 22" for k
    using that assms(2) by (simp add: le32_slice)
  show ?thesis
    by (simp add: parseEOCD_def bindE_def getUint32_def getUint16_def l s f16 f32 eocdAt_def)
qed


lemma length_trailingWindow: "length (trailingWindow archive) = min 65557 (length archive)"
  by (simp add: trailingWindow_def)

lemma window_fetch:
  "fetchRange (staticServer archive)
     (Num (int (length archive) - int (length (trailingWindow archive))))
     (Num (int (length archive) - 1)) this
   = (Inr (trailingWindow archive),
      this\<lparr>requests := requests this @
         [GetRange (Num (int (length archive) - int (length (trailingWindow archive))))
            (Num (int (length archive) - 1))]\<rparr>)"
proof (cases "length archive = 0")
  case True
  then show ?thesis
    by (simp add: fetchRange_eq staticServer_def ok_def trailingWindow_def)
next
  case False
  define s where "s = length archive - min 65557 (length archive)"
  have s: "int (length archive) - int (length (trailingWindow archive)) = int s"
    by (simp add: s_def length_trailingWindow)
  have r: "onRange (staticServer archive) (Num (int s)) (Num (int (length archive) - 1))
             = Reply 206 (slice archive (nat (int s)) (nat (int (length archive) - 1) + 1))"
    using False by (intro staticServer_range) (auto simp add: s_def)
  have "0 < length archive"
    using False by simp
  then have e: "nat (int (length archive) - 1) + 1 = length archive"
    by arith
  have w: "slice archive s (length archive) = trailingWindow archive"
    by (simp add: slice_def trailingWindow_def s_def)
  have "onRange (staticServer archive) (Num (int s)) (Num (int (length archive) - 1))
          = Reply 206 (trailingWindow archive)"
    using r by (simp only: e nat_int w)
  then show ?thesis
    unfolding s by (simp add: fetchRange_eq ok_def)
qed

lemma findEOCD_staticServer:
  assumes "fileSize this = Num 0 \<or> fileSize this = Num (int (length archive))"
  shows "findEOCD (staticServer archive) this =
     (scanEOCD (trailingWindow archive)
        (Num (int (length archive) - int (length (trailingWindow archive))))
        (int (length (trailingWindow archive)) - 22),
      this\<lparr>fileSize := Num (int (length archive)),
           requests := requests this @ (if falsy (fileSize this) then [Head] else []) @
             [GetRange (Num (int (length archive) - int (length (trailingWindow archive))))
                (Num (int (length archive) - 1))]\<rparr>)"
proof -
  define this1 where
    "this1 = this\<lparr>fileSize := Num (int (length archive)),
               requests := requests this @ (if falsy (fileSize this) then [Head] else [])\<rparr>"
  have q: "(if falsy (fileSize this) then getFileSize (staticServer archive) this
            else (Inr (fileSize this), this)) = (Inr (Num (int (length archive))), this1)"
    using assms by (auto simp add: getFileSize_staticServer this1_def)
  have f: "fileSize this1 = Num (int (length archive))"
    by (simp add: this1_def)
  have m: "int (length archive) - min 65557 (int (length archive))
             = int (length archive) - int (length (trailingWindow archive))"
    by (simp add: length_trailingWindow)
  show ?thesis
    unfolding findEOCD_def q
    by (simp add: f Let_def m window_fetch) (simp add: this1_def)
qed

lemma last_occurrence_exists:
  fixes P :: "nat \<Rightarrow> bool"
  assumes "P i" and "i \<le> n"
  shows "\<exists>p. P p \<and> p \<le> n \<and> (\<forall>j. p < j \<and> j \<le> n \<longrightarrow> \<not> P j)"
  using assms
proof (induction n)
  case 0
  then show ?case by auto
next
  case (Suc n)
  show ?case
  proof (cases "P (Suc n)")
    case True
    then show ?thesis by auto
  next
    case False
    then have "i \<le> n"
      using Suc.prems by (cases "i = Suc n") auto
    with Suc.IH Suc.prems(1) obtain p where
      p: "P p" "p \<le> n" "\<forall>j. p < j \<and> j \<le> n \<longrightarrow> \<not> P j"
      by blast
    have "\<not> P j" if "p < j \<and> j \<le> Suc n" for j
      using that p(3) False by (cases "j = Suc n") auto
    then show ?thesis
      using p(1,2) by auto
  qed
qed

lemma findEOCD_static_not_found:
  assumes "fileSize this = Num 0 \<or> fileSize this = Num (int (length archive))"
    and "\<forall>i. i + 22 \<le> length (trailingWindow archive) \<longrightarrow> \<not> sigAt (trailingWindow archive) i"
  shows "fst (findEOCD (staticServer archive) this) = Inl EOCDNotFound"
proof -
  have "\<forall>j. int j \<le> int (length (trailingWindow archive)) - 22
          \<longrightarrow> \<not> sigAt (trailingWindow archive) j"
    using assms(2) by auto
  then show ?thesis
    by (simp add: findEOCD_staticServer [OF assms(1)] scanEOCD_not_found)
qed


lemma findEOCD_static_found:
  assumes "fileSize this = Num 0 \<or> fileSize this = Num (int (length archive))"
    and "i + 22 \<le> length (trailingWindow archive)"
    and "sigAt (trailingWindow archive) i"
    and "\<forall>j. i < j \<and> j + 22 \<le> length (trailingWindow archive)
           \<longrightarrow> \<not> sigAt (trailingWindow archive) j"
  shows "fst (findEOCD (staticServer archive) this) =
     Inr ((eocdAt (trailingWindow archive) i)
          \<lparr>absoluteOffset := Num (int (length archive - length (trailingWindow archive) + i))\<rparr>)"
proof -
  define W where "W = trailingWindow archive"
  have s: "sigAt W i" and r: "i + 22 \<le> length W"
    using assms(2,3) by (simp_all add: W_def)
  have a: "i \<le> nat (int (length W) - 22)" "0 \<le> int (length W) - 22"
    using r by simp_all
  have b: "\<forall>j. i < j \<and> j \<le> nat (int (length W) - 22) \<longrightarrow> \<not> sigAt W j"
  proof (intro allI impI)
    fix j assume "i < j \<and> j \<le> nat (int (length W) - 22)"
    then have "i < j \<and> j + 22 \<le> length W" by auto
    then show "\<not> sigAt W j" using assms(4) unfolding W_def by blast
  qed
  have l: "length W \<le> length archive"
    by (simp add: W_def length_trailingWindow)
  have p: "parseEOCD (slice W i (i + 22)) = Inr (eocdAt W i)"
    using s r by (rule parseEOCD_slice)
  have n: "int (length archive) - int (length W) + int i
                   = int (length archive - length W + i)"
    using l by simp
  have "scanEOCD W (Num (int (length archive) - int (length W))) (int (length W) - 22)
          = Inr ((eocdAt W i)
                  \<lparr>absoluteOffset := Num (int (length archive - length W + i))\<rparr>)"
    unfolding scanEOCD_found [OF a s b] p n [symmetric]
    by (simp add: bindE_def)
  then show ?thesis
    unfolding findEOCD_staticServer [OF assms(1)] W_def by simp
qed


lemma findEOCD_static_requests:
  assumes "fileSize this = Num 0 \<or> fileSize this = Num (int (length archive))"
  shows "requests (snd (findEOCD (staticServer archive) this)) =
           requests this @ (if falsy (fileSize this) then [Head] else []) @
             [GetRange (Num (int (length archive) - int (min 65557 (length archive))))
                (Num (int (length archive) - 1))]"
    and "fileSize (snd (findEOCD (staticServer archive) this)) = Num (int (length archive))"
  unfolding findEOCD_staticServer [OF assms] length_trailingWindow by simp_all

lemma findEOCD_static_some:
  assumes "fileSize this = Num 0 \<or> fileSize this = Num (int (length archive))"
    and "i + 22 \<le> length (trailingWindow archive)" and "sigAt (trailingWindow archive) i"
  shows "\<exists>eocd. fst (findEOCD (staticServer archive) this) = Inr eocd"
proof -
  define W where "W = trailingWindow archive"
  have i: "sigAt W i" "i \<le> length W - 22" "22 \<le> length W"
    using assms(2,3) by (simp_all add: W_def)
  from last_occurrence_exists [of "sigAt W", OF i(1,2)]
  obtain p where p: "sigAt W p" "p \<le> length W - 22"
    "\<forall>j. p < j \<and> j \<le> length W - 22 \<longrightarrow> \<not> sigAt W j"
    by blast
  have r: "p + 22 \<le> length W" using p(2) i(3) by simp
  have l: "\<forall>j. p < j \<and> j + 22 \<le> length W \<longrightarrow> \<not> sigAt W j"
  proof (intro allI impI)
    fix j assume "p < j \<and> j + 22 \<le> length W"
    then have "p < j \<and> j \<le> length W - 22" by auto
    then show "\<not> sigAt W j" using p(3) by blast
  qed
  show ?thesis
    using findEOCD_static_found [OF assms(1) r [unfolded W_def] p(1) [unfolded W_def]
        l [unfolded W_def]]
    by blast
qed

text \<open>
  Claim C5, as the code has it. Against a server that reports the exact length and
  serves ranges exactly, and from a reader whose length is not yet known or is the
  archive's, the locator issues one range read, for the last \<open>min(65557, length)\<close> bytes.
  It returns the record decoded at the last position of the window that carries the
  signature and has the 22 bytes of a record behind it, with that position counted from
  the start of the archive; it returns a record whenever there is such a position and
  fails with \<open>EOCDNotFound\<close> when there is none.
\<close>

theorem findEOCD_last_complete_record:
  assumes "fileSize this = Num 0 \<or> fileSize this = Num (int (length archive))"
  shows "requests (snd (findEOCD (staticServer archive) this)) =
           requests this @ (if falsy (fileSize this) then [Head] else []) @
             [GetRange (Num (int (length archive) - int (min 65557 (length archive))))
                (Num (int (length archive) - 1))]
       \<and> length (trailingWindow archive) = min 65557 (length archive)
       \<and> ((\<forall>i. i + 22 \<le> length (trailingWindow archive)
                 \<longrightarrow> \<not> sigAt (trailingWindow archive) i)
            \<longrightarrow> fst (findEOCD (staticServer archive) this) = Inl EOCDNotFound)
       \<and> (\<forall>i. i + 22 \<le> length (trailingWindow archive) \<and> sigAt (trailingWindow archive) i
               \<and> (\<forall>j. i < j \<and> j + 22 \<le> length (trailingWindow archive)
                      \<longrightarrow> \<not> sigAt (trailingWindow archive) j)
            \<longrightarrow> fst (findEOCD (staticServer archive) this) =
                  Inr ((eocdAt (trailingWindow archive) i)
                       \<lparr>absoluteOffset :=
                          Num (int (length archive - length (trailingWindow archive) + i))\<rparr>))
       \<and> ((\<exists>i. i + 22 \<le> length (trailingWindow archive) \<and> sigAt (trailingWindow archive) i)
            \<longrightarrow> (\<exists>eocd. fst (findEOCD (staticServer archive) this) = Inr eocd))"
proof (intro conjI allI impI)
  show "requests (snd (findEOCD (staticServer archive) this)) =
           requests this @ (if falsy (fileSize this) then [Head] else []) @
             [GetRange (Num (int (length archive) - int (min 65557 (length archive))))
                (Num (int (length archive) - 1))]"
    using assms by (rule findEOCD_static_requests)
  show "length (trailingWindow archive) = min 65557 (length archive)"
    by (rule length_trailingWindow)
next
  assume "\<forall>i. i + 22 \<le> length (trailingWindow archive) \<longrightarrow> \<not> sigAt (trailingWindow archive) i"
  with assms show "fst (findEOCD (staticServer archive) this) = Inl EOCDNotFound"
    by (rule findEOCD_static_not_found)
next
  fix i
  assume "i + 22 \<le> length (trailingWindow archive) \<and> sigAt (trailingWindow archive) i
               \<and> (\<forall>j. i < j \<and> j + 22 \<le> length (trailingWindow archive)
                      \<longrightarrow> \<not> sigAt (trailingWindow archive) j)"
  then show "fst (findEOCD (staticServer archive) this) =
                  Inr ((eocdAt (trailingWindow archive) i)
                       \<lparr>absoluteOffset :=
                          Num (int (length archive - length (trailingWindow archive) + i))\<rparr>)"
    using findEOCD_static_found [OF assms, of i] by blast
next
  assume "\<exists>i. i + 22 \<le> length (trailingWindow archive) \<and> sigAt (trailingWindow archive) i"
  then show "\<exists>eocd. fst (findEOCD (staticServer archive) this) = Inr eocd"
    using findEOCD_static_some [OF assms] by blast
qed

lemma example_window:
  "length exampleArchive = 279"
  "trailingWindow exampleArchive = exampleArchive"
  "sigAt exampleArchive 257"
  "eocdAt exampleArchive 257 =
     \<lparr>diskNumber = 0, centralDirDisk = 0, diskEntryCount = 3, totalEntryCount = 3,
      centralDirSize = 151, centralDirOffset = 106, commentLength = 0,
      absoluteOffset = Num 0\<rparr>"
  by (simp_all add: exampleArchive_def trailingWindow_def sigAt_def eocdAt_def le16_def le32_def)

theorem findEOCD_last_complete_record_witness:
  "fst (findEOCD (staticServer exampleArchive) (newZipReader ''u'')) =
     Inr \<lparr>diskNumber = 0, centralDirDisk = 0, diskEntryCount = 3, totalEntryCount = 3,
          centralDirSize = 151, centralDirOffset = 106, commentLength = 0,
          absoluteOffset = Num 257\<rparr>
   \<and> requests (snd (findEOCD (staticServer exampleArchive) (newZipReader ''u'')))
       = [Head, GetRange (Num 0) (Num 278)]
   \<and> (\<exists>eocd. fst (findEOCD (staticServer exampleArchive) (newZipReader ''u'')) = Inr eocd)
   \<and> fst (findEOCD (staticServer [0x00]) (newZipReader ''u'')) = Inl EOCDNotFound"
proof -
  have a: "fileSize (newZipReader ''u'') = Num 0
           \<or> fileSize (newZipReader ''u'') = Num (int (length exampleArchive))"
    by (simp add: newZipReader_def)
  have b: "257 + 22 \<le> length (trailingWindow exampleArchive)
           \<and> sigAt (trailingWindow exampleArchive) 257
           \<and> (\<forall>j. 257 < j \<and> j + 22 \<le> length (trailingWindow exampleArchive)
                  \<longrightarrow> \<not> sigAt (trailingWindow exampleArchive) j)"
    by (auto simp add: example_window)
  have c: "\<exists>i. i + 22 \<le> length (trailingWindow exampleArchive)
              \<and> sigAt (trailingWindow exampleArchive) i"
    using b by blast
  have a': "fileSize (newZipReader ''u'') = Num 0
           \<or> fileSize (newZipReader ''u'') = Num (int (length [0x00 :: 8 word]))"
    by (simp add: newZipReader_def)
  have d: "\<forall>i. i + 22 \<le> length (trailingWindow [0x00])
             \<longrightarrow> \<not> sigAt (trailingWindow [0x00]) i"
    by (simp add: trailingWindow_def)
  note t = findEOCD_last_complete_record [OF a]
  note t' = findEOCD_last_complete_record [OF a']
  from t [THEN conjunct1]
    t [THEN conjunct2, THEN conjunct2, THEN conjunct2, THEN conjunct1, THEN spec, THEN mp, OF b]
    t [THEN conjunct2, THEN conjunct2, THEN conjunct2, THEN conjunct2, THEN mp, OF c]
    t' [THEN conjunct2, THEN conjunct2, THEN conjunct1, THEN mp, OF d]
  show ?thesis
    by (simp add: example_window newZipReader_def)
qed

text \<open>
  Claim C5 as stated fails: in \<open>commentArchive\<close> the last occurrence of the signature is
  at 22, in the comment, with four bytes behind it; the search starts 22 bytes before the
  end of the window and returns the record at 0.
\<close>

theorem findEOCD_skips_trailing_signature:
  "sigAt (trailingWindow commentArchive) 22
   \<and> fst (findEOCD (staticServer commentArchive) (newZipReader ''u'')) =
       Inr \<lparr>diskNumber = 0, centralDirDisk = 0, diskEntryCount = 0, totalEntryCount = 0,
            centralDirSize = 0, centralDirOffset = 0, commentLength = 4,
            absoluteOffset = Num 0\<rparr>"
proof -
  have w: "trailingWindow commentArchive = commentArchive" "length commentArchive = 26"
    by (simp_all add: commentArchive_def trailingWindow_def)
  have a: "fileSize (newZipReader ''u'') = Num 0
           \<or> fileSize (newZipReader ''u'') = Num (int (length commentArchive))"
    by (simp add: newZipReader_def)
  have s: "sigAt commentArchive 0" "sigAt commentArchive 22"
    by (simp_all add: sigAt_def commentArchive_def)
  have n: "\<forall>j. 0 < j \<and> j + 22 \<le> length commentArchive \<longrightarrow> \<not> sigAt commentArchive j"
  proof (intro allI impI)
    fix j assume "0 < j \<and> j + 22 \<le> length commentArchive"
    then have "j = 1 \<or> j = 2 \<or> j = 3 \<or> j = 4"
      unfolding w by arith
    then show "\<not> sigAt commentArchive j"
      by (elim disjE) (simp_all add: sigAt_def commentArchive_def)
  qed
  have e: "eocdAt commentArchive 0 =
       \<lparr>diskNumber = 0, centralDirDisk = 0, diskEntryCount = 0, totalEntryCount = 0,
            centralDirSize = 0, centralDirOffset = 0, commentLength = 4,
            absoluteOffset = Num 0\<rparr>"
    by (simp add: eocdAt_def le16_def le32_def commentArchive_def)
  have "fst (findEOCD (staticServer commentArchive) (newZipReader ''u'')) =
     Inr ((eocdAt commentArchive 0)\<lparr>absoluteOffset := Num 0\<rparr>)"
    using findEOCD_static_found [OF a, of 0] s(1) n by (simp add: w)
  then show ?thesis
    using s(2) by (simp add: w e)
qed

subsection \<open>Decoding the central directory\<close>

lemma findEOCD_static_found_state:
  assumes "fileSize this = Num 0 \<or> fileSize this = Num (int (length archive))"
    and "i + 22 \<le> length (trailingWindow archive)"
    and "sigAt (trailingWindow archive) i"
    and "\<forall>j. i < j \<and> j + 22 \<le> length (trailingWindow archive)
           \<longrightarrow> \<not> sigAt (trailingWindow archive) j"
  shows "findEOCD (staticServer archive) this =
     (Inr ((eocdAt (trailingWindow archive) i)
          \<lparr>absoluteOffset := Num (int (length archive - length (trailingWindow archive) + i))\<rparr>),
      this\<lparr>fileSize := Num (int (length archive)),
           requests := requests this @ (if falsy (fileSize this) then [Head] else []) @
             [GetRange (Num (int (length archive) - int (min 65557 (length archive))))
                (Num (int (length archive) - 1))]\<rparr>)"
proof -
  have "snd (findEOCD (staticServer archive) this) =
      this\<lparr>fileSize := Num (int (length archive)),
           requests := requests this @ (if falsy (fileSize this) then [Head] else []) @
             [GetRange (Num (int (length archive) - int (min 65557 (length archive))))
                (Num (int (length archive) - 1))]\<rparr>"
    unfolding findEOCD_staticServer [OF assms(1)] length_trailingWindow by simp
  then show ?thesis
    using findEOCD_static_found [OF assms]
    by (cases "findEOCD (staticServer archive) this") simp
qed

lemma decodeEntries_stops:
  assumes "parseCentralDirEntry lc buffer offset = Inl err"
  shows "decodeEntries lc buffer m offset acc = acc"
  using assms by (cases m) simp_all

lemma decodeEntries_decodesTo:
  assumes "decodesTo lc buffer offset es end"
  shows "decodeEntries lc buffer (length es + m) offset acc
           = decodeEntries lc buffer m end (acc @ es)"
  using assms
proof (induction es arbitrary: offset acc)
  case Nil
  then show ?case by simp
next
  case (Cons e es)
  from Cons.prems obtain nextOffset where
    p: "parseCentralDirEntry lc buffer offset = Inr (e, nextOffset)"
    and d: "decodesTo lc buffer nextOffset es end"
    by (auto split: sum.splits)
  show ?case
    using Cons.IH [OF d, of "acc @ [e]"] p by simp
qed

text \<open>
  Claim C3. Let the first \<open>k - 1\<close> records of the fetched directory decode to the
  entries \<open>es\<close>, let the decoder fail on the signature of the record that follows them,
  and let \<open>k\<close> be at most \<open>totalEntryCount\<close>. Then the directory read succeeds with
  exactly \<open>es\<close>, and a listing that found this end record succeeds with the entries
  \<open>es\<close>, each resolved unless it is a directory: the error stays inside the loop.
\<close>

theorem readCentralDirectory_partial_success:
  assumes "fetchRange srv (Num (centralDirOffset eocd))
             (Num (centralDirOffset eocd + centralDirSize eocd - 1)) this = (Inr buffer, this1)"
    and "decodesTo lc buffer 0 es offset"
    and "parseCentralDirEntry lc buffer offset = Inl InvalidCentralDirSignature"
    and "int (length es) < totalEntryCount eocd"
  shows "readCentralDirectory lc srv eocd this = (Inr es, this1)
       \<and> (findEOCD srv this0 = (Inr eocd, this) \<longrightarrow>
            readTableOfContents lc srv this0 = (Inr (map processEntry es), this1))"
proof -
  obtain m where m: "nat (totalEntryCount eocd) = length es + Suc m"
    using assms(4) by (metis Suc_diff_Suc add_Suc_right le_add_diff_inverse less_imp_le_nat
        nat_int zless_nat_conj zless_nat_eq_int_zless)
  have "decodeEntries lc buffer (nat (totalEntryCount eocd)) 0 [] = es"
    unfolding m decodeEntries_decodesTo [OF assms(2)]
    by (simp add: assms(3))
  then have r: "readCentralDirectory lc srv eocd this = (Inr es, this1)"
    using assms(1) by (simp add: readCentralDirectory_def Let_def)
  then show ?thesis
    by (simp add: readTableOfContents_def)
qed


lemma corrupted_example:
  "length corruptedArchive = 279"
  "trailingWindow corruptedArchive = corruptedArchive"
  "sigAt corruptedArchive 257"
  "eocdAt corruptedArchive 257 =
     \<lparr>diskNumber = 0, centralDirDisk = 0, diskEntryCount = 3, totalEntryCount = 3,
      centralDirSize = 151, centralDirOffset = 106, commentLength = 0,
      absoluteOffset = Num 0\<rparr>"
  "parseCentralDirEntry asciiLower (slice corruptedArchive 106 257) 0 = Inr (pngEntry, 51)"
  "parseCentralDirEntry asciiLower (slice corruptedArchive 106 257) 51
     = Inl InvalidCentralDirSignature"
  by (simp_all add: corruptedArchive_def exampleArchive_def trailingWindow_def sigAt_def
      eocdAt_def parseCentralDirEntry_eq pngEntry_def eval_defs)

theorem readCentralDirectory_partial_success_witness:
  "readTableOfContents asciiLower (staticServer corruptedArchive) (newZipReader ''u'')
     = (Inr [calculateFileDataOffset pngEntry],
        \<lparr>url = ''u'', fileSize = Num 279,
         requests = [Head, GetRange (Num 0) (Num 278), GetRange (Num 106) (Num 256)]\<rparr>)"
proof -
  define eocd where "eocd = (eocdAt corruptedArchive 257)\<lparr>absoluteOffset := Num 257\<rparr>"
  define this where
    "this = \<lparr>url = ''u'', fileSize = Num 279, requests = [Head, GetRange (Num 0) (Num 278)]\<rparr>"
  define this1 where
    "this1 = \<lparr>url = ''u'', fileSize = Num 279,
         requests = [Head, GetRange (Num 0) (Num 278), GetRange (Num 106) (Num 256)]\<rparr>"
  have a: "fileSize (newZipReader ''u'') = Num 0
           \<or> fileSize (newZipReader ''u'') = Num (int (length corruptedArchive))"
    by (simp add: newZipReader_def)
  have f: "findEOCD (staticServer corruptedArchive) (newZipReader ''u'') = (Inr eocd, this)"
  proof -
    have v: "\<forall>j. 257 < j \<and> j + 22 \<le> length (trailingWindow corruptedArchive)
               \<longrightarrow> \<not> sigAt (trailingWindow corruptedArchive) j"
      by (auto simp add: corrupted_example)
    have w: "257 + 22 \<le> length (trailingWindow corruptedArchive)"
      "sigAt (trailingWindow corruptedArchive) 257"
      by (simp_all add: corrupted_example)
    show ?thesis
      unfolding findEOCD_static_found_state [OF a w v]
      by (simp add: corrupted_example eocd_def this_def newZipReader_def)
  qed
  have r: "fetchRange (staticServer corruptedArchive) (Num (centralDirOffset eocd))
             (Num (centralDirOffset eocd + centralDirSize eocd - 1)) this
           = (Inr (slice corruptedArchive 106 257), this1)"
    by (simp add: fetchRange_eq eocd_def corrupted_example staticServer_def ok_def
        this_def this1_def)
  have d: "decodesTo asciiLower (slice corruptedArchive 106 257) 0 [pngEntry] 51"
    by (simp add: corrupted_example)
  have n: "int (length [pngEntry]) < totalEntryCount eocd"
    by (simp add: eocd_def corrupted_example)
  from readCentralDirectory_partial_success [OF r d corrupted_example(6) n,
      THEN conjunct2, THEN mp, OF f]
  show ?thesis
    by (simp add: processEntry_def pngEntry_def this1_def)
qed

subsection \<open>Listing a well-formed archive\<close>

lemma nth_mid: "k < length r \<Longrightarrow> (pre @ r @ post) ! (length pre + k) = r ! k"
  by (simp add: nth_append)

lemma le16_mid:
  assumes "k + 2 \<le> length r"
  shows "le16 (pre @ r @ post) (length pre + k) = le16 r k"
  using assms nth_mid [of k r pre post] nth_mid [of "k + 1" r pre post]
  by (simp add: le16_def add.assoc)

lemma le32_mid:
  assumes "k + 4 \<le> length r"
  shows "le32 (pre @ r @ post) (length pre + k) = le32 r k"
  using assms nth_mid [of k r pre post] nth_mid [of "k + 1" r pre post]
    nth_mid [of "k + 2" r pre post] nth_mid [of "k + 3" r pre post]
  by (simp add: le32_def add.assoc)

lemma slice_mid:
  assumes "e \<le> length r"
  shows "slice (pre @ r @ post) (length pre + s) (length pre + e) = slice r s e"
  using assms by (simp add: slice_def)

lemma le16_less: "le16 b k < 65536"
  using unat_byte_less [of "b ! k"] unat_byte_less [of "b ! (k + 1)"]
  by (simp add: le16_def)

lemma parseCentralDirEntry_mid:
  assumes "wellFormedRecord r"
  shows "parseCentralDirEntry lc (pre @ r @ post) (length pre)
           = Inr (entryAt lc r 0, length pre + length r)"
proof -
  have l: "46 \<le> length r" and s: "le32 r 0 = 0x02014b50"
    and z: "length r = 46 + le16 r 28 + le16 r 30 + le16 r 32"
    using assms by (simp_all add: wellFormedRecord_def entrySizeAt_def)
  have f16: "le16 (pre @ r @ post) (length pre + k) = le16 r k" if "k + 2 \<le> 46" for k
    using that l by (intro le16_mid) simp
  have f32: "le32 (pre @ r @ post) (length pre + k) = le32 r k" if "k + 4 \<le> 46" for k
    using that l by (intro le32_mid) simp
  have g: "le32 (pre @ r @ post) (length pre) = le32 r 0"
    using f32 [of 0] by simp
  have n: "slice (pre @ r @ post) (length pre + 46) (length pre + 46 + le16 r 28)
             = slice r 46 (46 + le16 r 28)"
    using slice_mid [of "46 + le16 r 28" r pre post 46] z by (simp add: add.assoc)
  have e: "entryAt lc (pre @ r @ post) (length pre) = entryAt lc r 0"
    by (simp add: entryAt_def f16 f32 n)
  have t: "entrySizeAt (pre @ r @ post) (length pre) = length r"
    by (simp add: entrySizeAt_def f16 z)
  show ?thesis
    using l by (simp add: parseCentralDirEntry_eq g s e t)
qed

lemma decodeEntries_records:
  assumes "\<forall>r \<in> set rs. wellFormedRecord r"
  shows "decodeEntries lc (pre @ concat rs @ post) (length rs) (length pre) acc
           = acc @ map (\<lambda>r. entryAt lc r 0) rs"
  using assms
proof (induction rs arbitrary: pre acc)
  case Nil
  then show ?case by simp
next
  case (Cons r rs)
  have w: "wellFormedRecord r" and ws: "\<forall>r \<in> set rs. wellFormedRecord r"
    using Cons.prems by simp_all
  have p: "parseCentralDirEntry lc (pre @ r @ (concat rs @ post)) (length pre)
             = Inr (entryAt lc r 0, length pre + length r)"
    using w by (rule parseCentralDirEntry_mid)
  have i: "decodeEntries lc ((pre @ r) @ concat rs @ post) (length rs) (length (pre @ r))
             (acc @ [entryAt lc r 0]) = (acc @ [entryAt lc r 0]) @ map (\<lambda>r. entryAt lc r 0) rs"
    using ws by (rule Cons.IH)
  show ?case
    using p i by simp
qed


lemma readCentralDirectory_static:
  assumes a: "archive = prefix @ concat records @ post"
    and w: "\<forall>r \<in> set records. wellFormedRecord r"
    and o: "centralDirOffset e = int (length prefix)"
    and z: "centralDirSize e = int (length (concat records))"
    and n: "totalEntryCount e = int (length records)"
  shows "readCentralDirectory lc (staticServer archive) e this =
     (Inr (map (\<lambda>r. entryAt lc r 0) records),
      this\<lparr>requests := requests this @
         [GetRange (Num (int (length prefix)))
            (Num (int (length prefix) + int (length (concat records)) - 1))]\<rparr>)"
proof (cases "records = []")
  case True
  then show ?thesis
    by (simp add: readCentralDirectory_def Let_def o z n fetchRange_eq
        staticServer_invalid_range ok_def)
next
  case False
  then obtain r rs where rs: "records = r # rs"
    by (cases records) auto
  have "46 \<le> length r"
    using w rs by (simp add: wellFormedRecord_def)
  moreover have "length r \<le> length (concat records)"
    using rs by simp
  ultimately have pos: "0 < length (concat records)"
    by linarith
  define cd where "cd = concat records"
  have e1: "nat (int (length prefix) + int (length cd) - 1) + 1 = length prefix + length cd"
    using pos unfolding cd_def by arith
  have la: "length archive = length prefix + length cd + length post"
    by (simp add: a cd_def)
  have g1: "0 \<le> int (length prefix)"
    by simp
  have g2: "int (length prefix) \<le> int (length prefix) + int (length cd) - 1"
    using pos unfolding cd_def by linarith
  have g3: "int (length prefix) < int (length archive)"
    using pos la unfolding cd_def by linarith
  have "onRange (staticServer archive) (Num (int (length prefix)))
          (Num (int (length prefix) + int (length cd) - 1))
        = Reply 206 (slice archive (nat (int (length prefix)))
            (nat (int (length prefix) + int (length cd) - 1) + 1))"
    using g1 g2 g3 by (rule staticServer_range)
  moreover have "slice archive (length prefix) (length prefix + length cd) = cd"
    using slice_mid [of "length cd" cd prefix post 0] by (simp add: a cd_def slice_def)
  ultimately have f: "onRange (staticServer archive) (Num (int (length prefix)))
          (Num (int (length prefix) + int (length cd) - 1)) = Reply 206 cd"
    by (simp only: e1 nat_int)
  have d: "decodeEntries lc cd (length records) 0 [] = map (\<lambda>r. entryAt lc r 0) records"
    using decodeEntries_records [OF w, of lc "[]" "[]" "[]"] by (simp add: cd_def)
  show ?thesis
    using f d
    by (simp add: readCentralDirectory_def Let_def o z n fetchRange_eq ok_def cd_def)
qed

lemma sigAt_mid:
  assumes "4 \<le> length e"
  shows "sigAt (pre @ e @ post) (length pre) = sigAt e 0"
  using assms by (auto simp add: sigAt_def nth_append numeral_2_eq_2 numeral_3_eq_3)

lemma eocdAt_mid:
  assumes "length e = 22"
  shows "eocdAt (pre @ e @ post) (length pre) = eocdAt e 0"
proof -
  have f16: "le16 (pre @ e @ post) (length pre + k) = le16 e k" if "k + 2 \<le> 22" for k
    using that assms by (intro le16_mid) simp
  have f32: "le32 (pre @ e @ post) (length pre + k) = le32 e k" if "k + 4 \<le> 22" for k
    using that assms by (intro le32_mid) simp
  show ?thesis
    by (simp add: eocdAt_def f16 f32)
qed

lemma sigAt_drop:
  assumes "s \<le> length b"
  shows "sigAt (drop s b) j = sigAt b (s + j)"
  using assms by (auto simp add: sigAt_def add.assoc)

lemma eocdAt_drop:
  assumes "s + i + 22 \<le> length b"
  shows "eocdAt (drop s b) i = eocdAt b (s + i)"
  using assms by (simp add: eocdAt_def le16_def le32_def add_ac)


lemma findEOCD_wellFormed:
  assumes wf: "wellFormedArchive archive prefix records eocd comment"
    and nf: "comment = [] \<or>
             (\<forall>i. length prefix + length (concat records) < i \<and> i + 22 \<le> length archive
                  \<longrightarrow> \<not> sigAt archive i)"
    and fs: "fileSize this = Num 0 \<or> fileSize this = Num (int (length archive))"
  shows "findEOCD (staticServer archive) this =
     (Inr ((eocdAt eocd 0)
          \<lparr>absoluteOffset := Num (int (length prefix + length (concat records)))\<rparr>),
      this\<lparr>fileSize := Num (int (length archive)),
           requests := requests this @ (if falsy (fileSize this) then [Head] else []) @
             [GetRange (Num (int (length archive) - int (min 65557 (length archive))))
                (Num (int (length archive) - 1))]\<rparr>)"
proof -
  define p where "p = length prefix + length (concat records)"
  define start where "start = length archive - min 65557 (length archive)"
  define q where "q = p - start"
  have a: "archive = (prefix @ concat records) @ eocd @ comment"
    and e22: "length eocd = 22" and s0: "sigAt eocd 0"
    and cl: "le16 eocd 20 = length comment"
    using wf by (simp_all add: wellFormedArchive_def)
  have la: "length archive = p + 22 + length comment"
    by (simp add: a e22 p_def)
  have lc: "length comment < 65536"
    using le16_less [of eocd 20] cl by simp
  have sp: "start \<le> p" and sl: "start \<le> length archive"
    using la lc by (simp_all add: start_def)
  have W: "trailingWindow archive = drop start archive"
    by (simp add: trailingWindow_def start_def)
  have lw: "length (trailingWindow archive) = length archive - start"
    by (simp add: W)
  have sq: "start + q = p"
    using sp by (simp add: q_def)
  have r: "q + 22 \<le> length (trailingWindow archive)"
    using la sp by (simp add: lw q_def)
  have pa: "sigAt archive p"
    unfolding a p_def using sigAt_mid [of eocd "prefix @ concat records" comment] s0 e22
    by simp
  have sg: "sigAt (trailingWindow archive) q"
    using pa by (simp add: W sigAt_drop [OF sl] sq)
  have nl: "\<forall>j. q < j \<and> j + 22 \<le> length (trailingWindow archive)
              \<longrightarrow> \<not> sigAt (trailingWindow archive) j"
  proof (intro allI impI)
    fix j assume j: "q < j \<and> j + 22 \<le> length (trailingWindow archive)"
    then have b: "p < start + j" "start + j + 22 \<le> length archive"
      using sq sl unfolding lw by arith+
    then have "comment \<noteq> []"
      using la by auto
    then have "\<not> sigAt archive (start + j)"
      using nf b unfolding p_def by blast
    then show "\<not> sigAt (trailingWindow archive) j"
      by (simp add: W sigAt_drop [OF sl])
  qed
  have "start + q + 22 \<le> length archive"
    using la sq by simp
  then have "eocdAt (trailingWindow archive) q = eocdAt archive p"
    unfolding W by (simp add: eocdAt_drop sq)
  also have "\<dots> = eocdAt eocd 0"
    unfolding a p_def using eocdAt_mid [OF e22, of "prefix @ concat records" comment]
    by simp
  finally have ea: "eocdAt (trailingWindow archive) q = eocdAt eocd 0" .
  have ps: "length archive - length (trailingWindow archive) + q = p"
    using sl sq by (simp add: lw)
  show ?thesis
    unfolding findEOCD_static_found_state [OF fs r sg nl] ea ps
    by (simp add: p_def)
qed

text \<open>
  Claim C4, as the code has it. Take a well-formed archive of \<open>N\<close> records, served by
  the static server, whose comment is empty or has no end-record signature at a position
  behind the end record with 22 bytes following it, and a reader whose length is not yet
  known or is the archive's. The listing returns exactly the \<open>N\<close> entries that the
  records denote, in the order of the central directory, each resolved unless it is a
  directory. It issues two range reads, one for the trailing window and one for the bytes
  of the central directory.
\<close>

theorem readTableOfContents_wellFormed:
  assumes wf: "wellFormedArchive archive prefix records eocd comment"
    and nf: "comment = [] \<or>
             (\<forall>i. length prefix + length (concat records) < i \<and> i + 22 \<le> length archive
                  \<longrightarrow> \<not> sigAt archive i)"
    and fs: "fileSize this = Num 0 \<or> fileSize this = Num (int (length archive))"
  shows "readTableOfContents lc (staticServer archive) this =
     (Inr (map (\<lambda>r. processEntry (entryAt lc r 0)) records),
      this\<lparr>fileSize := Num (int (length archive)),
           requests := requests this @ (if falsy (fileSize this) then [Head] else []) @
             [GetRange (Num (int (length archive) - int (min 65557 (length archive))))
                (Num (int (length archive) - 1)),
              GetRange (Num (int (length prefix)))
                (Num (int (length prefix) + int (length (concat records)) - 1))]\<rparr>)
       \<and> length (map (\<lambda>r. processEntry (entryAt lc r 0)) records) = length records
       \<and> (\<forall>r \<in> set records. parseCentralDirEntry lc r 0 = Inr (entryAt lc r 0, length r))"
proof -
  define e where
    "e = (eocdAt eocd 0)\<lparr>absoluteOffset := Num (int (length prefix + length (concat records)))\<rparr>"
  define this1 where
    "this1 = this\<lparr>fileSize := Num (int (length archive)),
           requests := requests this @ (if falsy (fileSize this) then [Head] else []) @
             [GetRange (Num (int (length archive) - int (min 65557 (length archive))))
                (Num (int (length archive) - 1))]\<rparr>"
  have a: "archive = prefix @ concat records @ (eocd @ comment)"
    and w: "\<forall>r \<in> set records. wellFormedRecord r"
    and f: "le16 eocd 10 = length records" "le32 eocd 12 = length (concat records)"
      "le32 eocd 16 = length prefix"
    using wf by (simp_all add: wellFormedArchive_def)
  have o: "centralDirOffset e = int (length prefix)"
    and z: "centralDirSize e = int (length (concat records))"
    and n: "totalEntryCount e = int (length records)"
    by (simp_all add: e_def eocdAt_def f)
  have 1: "findEOCD (staticServer archive) this = (Inr e, this1)"
    unfolding e_def this1_def using wf nf fs by (rule findEOCD_wellFormed)
  have 2: "readCentralDirectory lc (staticServer archive) e this1 =
     (Inr (map (\<lambda>r. entryAt lc r 0) records),
      this1\<lparr>requests := requests this1 @
         [GetRange (Num (int (length prefix)))
            (Num (int (length prefix) + int (length (concat records)) - 1))]\<rparr>)"
    using a w o z n by (rule readCentralDirectory_static)
  have 3: "parseCentralDirEntry lc r 0 = Inr (entryAt lc r 0, length r)"
    if "r \<in> set records" for r
    using parseCentralDirEntry_mid [of r lc "[]" "[]"] w that by simp
  have 4: "readTableOfContents lc (staticServer archive) this =
     (Inr (map processEntry (map (\<lambda>r. entryAt lc r 0) records)),
      this1\<lparr>requests := requests this1 @
         [GetRange (Num (int (length prefix)))
            (Num (int (length prefix) + int (length (concat records)) - 1))]\<rparr>)"
    by (simp add: readTableOfContents_def 1 2)
  show ?thesis
    unfolding 4 using 3 by (simp add: this1_def comp_def)
qed


lemma example_wellFormed:
  "wellFormedArchive exampleArchive (take 106 exampleArchive)
     [slice exampleArchive 106 157, slice exampleArchive 157 205, slice exampleArchive 205 257]
     (drop 257 exampleArchive) []"
  by (simp add: wellFormedArchive_def wellFormedRecord_def exampleArchive_def slice_def
      sigAt_def le16_def le32_def entrySizeAt_def)

lemma example_entries:
  "entryAt asciiLower (slice exampleArchive 106 157) 0 = pngEntry"
  "entryAt asciiLower (slice exampleArchive 157 205) 0 = dirEntry"
  "entryAt asciiLower (slice exampleArchive 205 257) 0 = accentEntry"
  by (simp_all add: exampleArchive_def pngEntry_def dirEntry_def accentEntry_def eval_defs)

lemma padded_wellFormed:
  "wellFormedArchive paddedArchive (take 37 exampleArchive) [slice exampleArchive 106 157]
     oneEntryEOCD (replicate 65535 0x20)"
  by (simp add: wellFormedArchive_def paddedArchive_def)
    (simp add: wellFormedRecord_def exampleArchive_def oneEntryEOCD_def slice_def sigAt_def
      le16_def le32_def entrySizeAt_def)

lemma padded_no_signature:
  "\<forall>i. length (take 37 exampleArchive) + length (concat [slice exampleArchive 106 157]) < i
         \<and> i + 22 \<le> length paddedArchive
       \<longrightarrow> \<not> sigAt paddedArchive i"
proof (intro allI impI)
  fix i
  assume a: "length (take 37 exampleArchive) + length (concat [slice exampleArchive 106 157]) < i
         \<and> i + 22 \<le> length paddedArchive"
  define pre where "pre = take 37 exampleArchive @ slice exampleArchive 106 157 @ [0x50]"
  define rest where "rest = drop 1 oneEntryEOCD @ replicate 65535 (0x20 :: 8 word)"
  have p: "paddedArchive = pre @ rest"
    by (simp add: paddedArchive_def pre_def rest_def oneEntryEOCD_def)
  have lp: "length pre = 89"
    by (simp add: pre_def example_window slice_def)
  have lr: "length rest = 65556"
    by (simp add: rest_def oneEntryEOCD_def)
  have n: "0x50 \<notin> set rest"
    by (simp add: rest_def oneEntryEOCD_def)
  have "88 < i \<and> i + 22 \<le> 65645"
    using a by (simp add: p lp lr example_window slice_def)
  then have i: "89 \<le> i" "i - 89 < length rest"
    unfolding lr by arith+
  have "paddedArchive ! i = rest ! (i - 89)"
    using i(1) by (simp add: p nth_append lp)
  moreover have "rest ! (i - 89) \<in> set rest"
    using i(2) by (rule nth_mem)
  ultimately have "paddedArchive ! i \<noteq> 0x50"
    using n by auto
  then show "\<not> sigAt paddedArchive i"
    by (simp add: sigAt_def)
qed

theorem readTableOfContents_wellFormed_witness:
  "readTableOfContents asciiLower (staticServer exampleArchive) (newZipReader ''u'') =
     (Inr [calculateFileDataOffset pngEntry, dirEntry, calculateFileDataOffset accentEntry],
      \<lparr>url = ''u'', fileSize = Num 279,
       requests = [Head, GetRange (Num 0) (Num 278), GetRange (Num 106) (Num 256)]\<rparr>)
   \<and> readTableOfContents asciiLower (staticServer paddedArchive) (newZipReader ''u'') =
     (Inr [calculateFileDataOffset pngEntry],
      \<lparr>url = ''u'', fileSize = Num 65645,
       requests = [Head, GetRange (Num 88) (Num 65644), GetRange (Num 37) (Num 87)]\<rparr>)"
proof -
  have n: "[] = ([] :: bytes) \<or>
             (\<forall>i. length (take 106 exampleArchive)
                    + length (concat [slice exampleArchive 106 157,
                        slice exampleArchive 157 205, slice exampleArchive 205 257]) < i
                  \<and> i + 22 \<le> length exampleArchive
                  \<longrightarrow> \<not> sigAt exampleArchive i)"
    by simp
  have f: "fileSize (newZipReader ''u'') = Num 0
           \<or> fileSize (newZipReader ''u'') = Num (int (length exampleArchive))"
    by (simp add: newZipReader_def)
  have l: "length (take 106 exampleArchive) = 106"
    "length (concat [slice exampleArchive 106 157, slice exampleArchive 157 205,
        slice exampleArchive 205 257]) = 151"
    by (simp_all add: example_window slice_def)
  have 1: "readTableOfContents asciiLower (staticServer exampleArchive) (newZipReader ''u'') =
     (Inr [calculateFileDataOffset pngEntry, dirEntry, calculateFileDataOffset accentEntry],
      \<lparr>url = ''u'', fileSize = Num 279,
       requests = [Head, GetRange (Num 0) (Num 278), GetRange (Num 106) (Num 256)]\<rparr>)"
    using readTableOfContents_wellFormed [OF example_wellFormed n f, of asciiLower,
        THEN conjunct1]
    unfolding l example_window
    by (simp add: example_entries processEntry_def newZipReader_def pngEntry_def dirEntry_def
        accentEntry_def)
  have n': "replicate 65535 (0x20 :: 8 word) = [] \<or>
     (\<forall>i. length (take 37 exampleArchive) + length (concat [slice exampleArchive 106 157]) < i
         \<and> i + 22 \<le> length paddedArchive
       \<longrightarrow> \<not> sigAt paddedArchive i)"
    using padded_no_signature by blast
  have f': "fileSize (newZipReader ''u'') = Num 0
           \<or> fileSize (newZipReader ''u'') = Num (int (length paddedArchive))"
    by (simp add: newZipReader_def)
  have l': "length (take 37 exampleArchive) = 37"
    "length (concat [slice exampleArchive 106 157]) = 51"
    "length paddedArchive = 65645"
    by (simp_all add: paddedArchive_def oneEntryEOCD_def example_window slice_def)
  have 2: "readTableOfContents asciiLower (staticServer paddedArchive) (newZipReader ''u'') =
     (Inr [calculateFileDataOffset pngEntry],
      \<lparr>url = ''u'', fileSize = Num 65645,
       requests = [Head, GetRange (Num 88) (Num 65644), GetRange (Num 37) (Num 87)]\<rparr>)"
    using readTableOfContents_wellFormed [OF padded_wellFormed n' f', of asciiLower,
        THEN conjunct1]
    unfolding l'
    by (simp add: example_entries processEntry_def newZipReader_def pngEntry_def)
  show ?thesis
    using 1 2 by simp
qed

lemma forged_lengths:
  "length forgedComment = 65535"
  "length forgedArchive = 65645"
  "length (oneEntryEOCD @ replicate 65513 0x20) = 65535"
  "length emptyEOCD = 22"
  by (simp_all add: forgedComment_def forgedArchive_def emptyEOCD_def oneEntryEOCD_def
      example_window slice_def)

lemma forged_window:
  "trailingWindow forgedArchive = (oneEntryEOCD @ replicate 65513 0x20) @ emptyEOCD @ []"
  by (simp add: trailingWindow_def forged_lengths)
    (simp add: forgedArchive_def forgedComment_def example_window slice_def)

lemma forged_wellFormed:
  "wellFormedArchive forgedArchive (take 37 exampleArchive) [slice exampleArchive 106 157]
     oneEntryEOCD forgedComment"
  by (simp add: wellFormedArchive_def forgedArchive_def forged_lengths)
    (simp add: wellFormedRecord_def exampleArchive_def oneEntryEOCD_def slice_def sigAt_def
      le16_def le32_def entrySizeAt_def)

text \<open>
  Claim C4 as stated fails: \<open>forgedArchive\<close> is well formed, has one entry and a comment
  of 65535 bytes, and its listing has no entry. The search from the end of the window
  meets the signature in the last 22 bytes of the comment first and takes them for the
  end record, which says that there is no entry.
\<close>

theorem readTableOfContents_forged_comment:
  "wellFormedArchive forgedArchive (take 37 exampleArchive) [slice exampleArchive 106 157]
     oneEntryEOCD forgedComment
   \<and> length forgedComment = 65535
   \<and> fst (readTableOfContents asciiLower (staticServer forgedArchive) (newZipReader ''u''))
       = Inr []"
proof -
  define W where "W = trailingWindow forgedArchive"
  define e where "e = (eocdAt emptyEOCD 0)\<lparr>absoluteOffset := Num 65623\<rparr>"
  have f: "fileSize (newZipReader ''u'') = Num 0
           \<or> fileSize (newZipReader ''u'') = Num (int (length forgedArchive))"
    by (simp add: newZipReader_def)
  have lw: "length W = 65557"
    by (simp add: W_def length_trailingWindow forged_lengths)
  have r: "65535 + 22 \<le> length W"
    by (simp add: lw)
  have s0: "sigAt emptyEOCD 0"
    by (simp add: sigAt_def emptyEOCD_def)
  have s: "sigAt W 65535"
    unfolding W_def forged_window
    using sigAt_mid [of emptyEOCD "oneEntryEOCD @ replicate 65513 0x20" "[]"] s0
    by (simp only: forged_lengths)
  have ea: "eocdAt W 65535 = eocdAt emptyEOCD 0"
    unfolding W_def forged_window
    using eocdAt_mid [of emptyEOCD "oneEntryEOCD @ replicate 65513 0x20" "[]"]
    by (simp only: forged_lengths)
  have n: "\<forall>j. 65535 < j \<and> j + 22 \<le> length W \<longrightarrow> \<not> sigAt W j"
    by (auto simp add: lw)
  have z: "centralDirOffset e = int (length ([] :: bytes))"
    "centralDirSize e = int (length (concat ([] :: bytes list)))"
    "totalEntryCount e = int (length ([] :: bytes list))"
    by (simp_all add: e_def eocdAt_def emptyEOCD_def le16_def le32_def)
  have 1: "fst (findEOCD (staticServer forgedArchive) (newZipReader ''u'')) = Inr e"
    using findEOCD_static_found [OF f r [unfolded W_def] s [unfolded W_def] n [unfolded W_def]]
    by (simp add: e_def ea [unfolded W_def] forged_lengths length_trailingWindow)
  have 2: "fst (readCentralDirectory asciiLower (staticServer forgedArchive) e this) = Inr []"
    for this
    using readCentralDirectory_static [of forgedArchive "[]" "[]" forgedArchive e asciiLower this]
      z by simp
  have "fst (readTableOfContents asciiLower (staticServer forgedArchive) (newZipReader ''u''))
       = Inr []"
  proof (cases "findEOCD (staticServer forgedArchive) (newZipReader ''u'')")
    case (Pair x this1)
    then have x: "x = Inr e" using 1 by simp
    show ?thesis
      using 2 [of this1]
      by (cases "readCentralDirectory asciiLower (staticServer forgedArchive) e this1")
        (simp add: readTableOfContents_def Pair x)
  qed
  then show ?thesis
    using forged_wellFormed by (simp add: forged_lengths)
qed

subsection \<open>The life of the cached length\<close>

lemma getFileSize_success:
  assumes "onHead srv = Reply status (Some s)" and "ok status" and "s \<noteq> []"
  shows "getFileSize srv this =
     (Inr (parseInt10 s), this\<lparr>requests := requests this @ [Head], fileSize := parseInt10 s\<rparr>)"
  using assms by (simp add: getFileSize_def Let_def)

lemma requests_getFileSize:
  "requests (snd (getFileSize srv this)) = requests this @ [Head]"
  by (simp add: getFileSize_def Let_def split: reply.splits option.splits)

lemma requests_findEOCD_known:
  assumes "fileSize this = Num m" and "m \<noteq> 0"
  shows "requests (snd (findEOCD srv this)) =
     requests this @ [GetRange (Num (m - min 65557 m)) (Num (m - 1))]"
  using assms by (simp add: findEOCD_def Let_def fetchRange_eq split: reply.splits)

lemma requests_findEOCD_unknown:
  assumes "falsy (fileSize this)"
  shows "\<exists>rest. requests (snd (findEOCD srv this)) = requests this @ Head # rest"
proof (cases "getFileSize srv this")
  case (Pair r this1)
  have q: "requests this1 = requests this @ [Head]"
    using requests_getFileSize [of srv this] Pair by simp
  show ?thesis
  proof (cases r)
    case (Inl e)
    then show ?thesis
      using assms Pair q by (simp add: findEOCD_def)
  next
    case (Inr n)
    then show ?thesis
      using assms Pair q
      by (simp add: findEOCD_def Let_def fetchRange_eq split: reply.splits)
  qed
qed

lemma requests_readCentralDirectory:
  "requests (snd (readCentralDirectory lc srv eocd this)) =
     requests this @
       [GetRange (Num (centralDirOffset eocd))
          (Num (centralDirOffset eocd + centralDirSize eocd - 1))]"
  by (simp add: readCentralDirectory_def Let_def fetchRange_eq split: reply.splits)

lemma extractFile_ignores_fileSize:
  "fst (extractFile lc srv entry (this\<lparr>fileSize := k\<rparr>)) = fst (extractFile lc srv entry this)"
  "requests (snd (snd (extractFile lc srv entry (this\<lparr>fileSize := k\<rparr>))))
     = requests (snd (snd (extractFile lc srv entry this)))"
  by (simp_all add: extractFile_def Let_def fetchRange_eq split: reply.splits)

text \<open>
  Claim C7, as the code has it. Every size query issues one \<open>HEAD\<close> request. When the
  server answers with a success status and a non-empty \<open>content-length\<close>, the query
  stores the number parsed from that header, whatever the reader held before, and returns
  it; when the query fails the stored length stays. A query succeeds only in that way.
  After a successful query, a further query, a search for the end record and a listing
  against the same server leave the length as it is. Whatever the server, a search or a
  listing writes the length only when it is 0 or NaN, through a size query of its own,
  and a range read, a directory read and an extraction never write it. A stored length
  \<open>m\<close> other than 0 bounds the range of the search for the end record, which is
  \<open>[m - min(65557, m), m - 1]\<close>; the directory read takes its range from the end
  record, and an extraction does the same whatever length is stored.
\<close>

theorem cached_length_lifecycle:
  "(onHead srv = Reply status (Some s) \<and> ok status \<and> s \<noteq> [] \<longrightarrow>
      getFileSize srv this =
        (Inr (parseInt10 s),
         this\<lparr>requests := requests this @ [Head], fileSize := parseInt10 s\<rparr>))
   \<and> requests (snd (getFileSize srv this)) = requests this @ [Head]
   \<and> (getFileSize srv this = (Inl err, this1) \<longrightarrow> fileSize this1 = fileSize this)
   \<and> (getFileSize srv this = (Inr n, this1) \<longrightarrow>
        (\<exists>status s. onHead srv = Reply status (Some s) \<and> ok status \<and> s \<noteq> []
            \<and> n = parseInt10 s)
        \<and> fileSize this1 = n
        \<and> fileSize (snd (getFileSize srv this1)) = n
        \<and> fileSize (snd (findEOCD srv this1)) = n
        \<and> fileSize (snd (readTableOfContents lc srv this1)) = n)
   \<and> (\<not> falsy (fileSize this) \<longrightarrow>
        fileSize (snd (findEOCD srv' this)) = fileSize this
        \<and> fileSize (snd (readTableOfContents lc srv' this)) = fileSize this)
   \<and> (falsy (fileSize this) \<longrightarrow>
        (\<exists>rest. requests (snd (findEOCD srv' this)) = requests this @ Head # rest))
   \<and> (fileSize this = Num m \<and> m \<noteq> 0 \<longrightarrow>
        requests (snd (findEOCD srv' this)) =
          requests this @ [GetRange (Num (m - min 65557 m)) (Num (m - 1))])
   \<and> (0 < m \<longrightarrow> 0 \<le> m - min 65557 m \<and> m - min 65557 m \<le> m - 1)
   \<and> fileSize (snd (fetchRange srv' start end this)) = fileSize this
   \<and> fileSize (snd (readCentralDirectory lc srv' eocd this)) = fileSize this
   \<and> fileSize (snd (snd (extractFile lc srv' entry this))) = fileSize this
   \<and> requests (snd (readCentralDirectory lc srv' eocd this)) =
        requests this @
          [GetRange (Num (centralDirOffset eocd))
             (Num (centralDirOffset eocd + centralDirSize eocd - 1))]
   \<and> fst (extractFile lc srv' entry (this\<lparr>fileSize := k\<rparr>))
        = fst (extractFile lc srv' entry this)
   \<and> requests (snd (snd (extractFile lc srv' entry (this\<lparr>fileSize := k\<rparr>))))
        = requests (snd (snd (extractFile lc srv' entry this)))"
proof -
  have a: "getFileSize srv this =
        (Inr (parseInt10 s),
         this\<lparr>requests := requests this @ [Head], fileSize := parseInt10 s\<rparr>)"
    if "onHead srv = Reply status (Some s) \<and> ok status \<and> s \<noteq> []"
    using that by (simp add: getFileSize_success)
  have b: "fileSize this1 = fileSize this" if "getFileSize srv this = (Inl err, this1)"
    using getFileSize_InlD [OF that] by simp
  have c: "(\<exists>status s. onHead srv = Reply status (Some s) \<and> ok status \<and> s \<noteq> []
            \<and> n = parseInt10 s)
        \<and> fileSize this1 = n
        \<and> fileSize (snd (getFileSize srv this1)) = n
        \<and> fileSize (snd (findEOCD srv this1)) = n
        \<and> fileSize (snd (readTableOfContents lc srv this1)) = n"
    if h: "getFileSize srv this = (Inr n, this1)"
    using getFileSize_InrD [OF h] getFileSize_again [OF h, of this1]
      fileSize_findEOCD_same_server [OF h]
    by (simp add: fileSize_readTableOfContents)
  have d: "fileSize (snd (findEOCD srv' this)) = fileSize this
        \<and> fileSize (snd (readTableOfContents lc srv' this)) = fileSize this"
    if "\<not> falsy (fileSize this)"
    using that by (simp add: fileSize_findEOCD_known fileSize_readTableOfContents)
  have e: "\<exists>rest. requests (snd (findEOCD srv' this)) = requests this @ Head # rest"
    if "falsy (fileSize this)"
    using that by (rule requests_findEOCD_unknown)
  have f: "requests (snd (findEOCD srv' this)) =
          requests this @ [GetRange (Num (m - min 65557 m)) (Num (m - 1))]"
    if "fileSize this = Num m \<and> m \<noteq> 0"
    using that by (simp add: requests_findEOCD_known)
  have g: "0 \<le> m - min 65557 m \<and> m - min 65557 m \<le> m - 1" if "0 < m"
    using that by auto
  show ?thesis
    by (intro conjI)
      (use a b c d e f g in blast,
       (fact requests_getFileSize fileSize_readCentralDirectory fileSize_extractFile
          requests_readCentralDirectory extractFile_ignores_fileSize
        | use a b c d e f g in blast | simp add: fetchRange_state)+)
qed


lemma example_heads:
  "onHead (staticServer [0x00, 0x00]) = Reply 200 (Some ''2'') \<and> ok 200 \<and> ''2'' \<noteq> []"
  "parseInt10 ''2'' = Num 2"
  "getFileSize unreachableServer (newZipReader ''u'')
     = (Inl FetchRejected, \<lparr>url = ''u'', fileSize = Num 0, requests = [Head]\<rparr>)"
  by (simp_all add: staticServer_def unreachableServer_def getFileSize_def newZipReader_def
      ok_def showNat.simps digitChar_def parseInt10_def isWhiteSpace_def isDigit_def
      digitsValue_def digitValue_def Let_def)

theorem cached_length_lifecycle_witness:
  "getFileSize (staticServer [0x00, 0x00]) \<lparr>url = ''u'', fileSize = Num 1, requests = [Head]\<rparr>
     = (Inr (Num 2), \<lparr>url = ''u'', fileSize = Num 2, requests = [Head, Head]\<rparr>)
   \<and> getFileSize unreachableServer (newZipReader ''u'')
       = (Inl FetchRejected, \<lparr>url = ''u'', fileSize = Num 0, requests = [Head]\<rparr>)
   \<and> fileSize \<lparr>url = ''u'', fileSize = Num 0, requests = [Head]\<rparr>
       = fileSize (newZipReader ''u'')
   \<and> getFileSize (staticServer [0x00]) (newZipReader ''u'')
       = (Inr (Num 1), \<lparr>url = ''u'', fileSize = Num 1, requests = [Head]\<rparr>)
   \<and> fileSize (snd (readTableOfContents asciiLower (staticServer [0x00])
          \<lparr>url = ''u'', fileSize = Num 1, requests = [Head]\<rparr>)) = Num 1
   \<and> fileSize (snd (readTableOfContents asciiLower (staticServer [0x00, 0x00])
          \<lparr>url = ''u'', fileSize = Num 1, requests = [Head]\<rparr>)) = Num 1
   \<and> requests (snd (findEOCD (staticServer [0x00, 0x00])
          \<lparr>url = ''u'', fileSize = Num 1, requests = [Head]\<rparr>))
       = [Head, GetRange (Num 0) (Num 0)]
   \<and> (\<exists>rest. requests (snd (findEOCD (staticServer [0x00]) (newZipReader ''u''))) = Head # rest)"
proof -
  define r1 where "r1 = \<lparr>url = ''u'', fileSize = Num 1, requests = [Head]\<rparr>"
  have nf: "\<not> falsy (fileSize r1)" and k: "fileSize r1 = Num 1 \<and> (1::int) \<noteq> 0"
    and p: "(0::int) < 1"
    by (simp_all add: r1_def)
  have fz: "falsy (fileSize (newZipReader ''u''))"
    by (simp add: newZipReader_def)
  note t1 = cached_length_lifecycle [where srv = "staticServer [0x00, 0x00]" and this = r1
      and status = 200 and s = "''2''" and srv' = "staticServer [0x00, 0x00]"
      and lc = asciiLower and m = 1]
  note t2 = cached_length_lifecycle [where srv = unreachableServer
      and this = "newZipReader ''u''" and err = FetchRejected
      and ?this1.0 = "\<lparr>url = ''u'', fileSize = Num 0, requests = [Head]\<rparr>"
      and srv' = "staticServer [0x00]"]
  note t3 = cached_length_lifecycle [where srv = "staticServer [0x00]"
      and this = "newZipReader ''u''" and n = "Num 1" and ?this1.0 = r1 and lc = asciiLower]
  have 1: "getFileSize (staticServer [0x00, 0x00]) r1 =
        (Inr (parseInt10 ''2''),
         r1\<lparr>requests := requests r1 @ [Head], fileSize := parseInt10 ''2''\<rparr>)"
    using t1 example_heads(1) by blast
  have 2: "fileSize \<lparr>url = ''u'', fileSize = Num 0, requests = [Head]\<rparr>
             = fileSize (newZipReader ''u'')"
    using t2 example_heads(3) by blast
  have 3: "fileSize (snd (readTableOfContents asciiLower (staticServer [0x00]) r1)) = Num 1"
    using t3 example_sizes(1) [folded r1_def] by blast
  have 4: "fileSize (snd (readTableOfContents asciiLower (staticServer [0x00, 0x00]) r1))
             = fileSize r1"
    using t1 nf by blast
  have 5: "requests (snd (findEOCD (staticServer [0x00, 0x00]) r1)) =
          requests r1 @ [GetRange (Num (1 - min 65557 1)) (Num (1 - 1))]"
    using t1 k by blast
  have 6: "0 \<le> (1::int) - min 65557 1 \<and> (1::int) - min 65557 1 \<le> 1 - 1"
    using t1 p by blast
  have 7: "\<exists>rest. requests (snd (findEOCD (staticServer [0x00]) (newZipReader ''u'')))
             = requests (newZipReader ''u'') @ Head # rest"
    using t2 fz by blast
  have 8: "requests (newZipReader ''u'') = []"
    by (simp add: newZipReader_def)
  show ?thesis
    using 1 2 3 4 5 7 example_heads(3) example_sizes(1)
    unfolding 8
    by (simp add: r1_def example_heads(2))
qed

lemma truncated_listing:
  "readTableOfContents asciiLower (staticServer truncatedArchive) (newZipReader ''u'')
     = (Inl (HttpError 416),
        \<lparr>url = ''u'', fileSize = Num 22,
         requests = [Head, GetRange (Num 0) (Num 21), GetRange (Num 1000) (Num 1045)]\<rparr>)"
proof -
  have w: "length truncatedArchive = 22" "trailingWindow truncatedArchive = truncatedArchive"
    "sigAt truncatedArchive 0"
    "eocdAt truncatedArchive 0 =
       \<lparr>diskNumber = 0, centralDirDisk = 0, diskEntryCount = 1, totalEntryCount = 1,
        centralDirSize = 46, centralDirOffset = 1000, commentLength = 0,
        absoluteOffset = Num 0\<rparr>"
    by (simp_all add: truncatedArchive_def trailingWindow_def sigAt_def eocdAt_def le16_def
        le32_def)
  have a: "fileSize (newZipReader ''u'') = Num 0
           \<or> fileSize (newZipReader ''u'') = Num (int (length truncatedArchive))"
    by (simp add: newZipReader_def)
  have r: "0 + 22 \<le> length (trailingWindow truncatedArchive)"
    "sigAt (trailingWindow truncatedArchive) 0"
    by (simp_all add: w)
  have v: "\<forall>j. 0 < j \<and> j + 22 \<le> length (trailingWindow truncatedArchive)
             \<longrightarrow> \<not> sigAt (trailingWindow truncatedArchive) j"
    by (auto simp add: w)
  have f: "findEOCD (staticServer truncatedArchive) (newZipReader ''u'') =
     (Inr \<lparr>diskNumber = 0, centralDirDisk = 0, diskEntryCount = 1, totalEntryCount = 1,
        centralDirSize = 46, centralDirOffset = 1000, commentLength = 0,
        absoluteOffset = Num 0\<rparr>,
      \<lparr>url = ''u'', fileSize = Num 22, requests = [Head, GetRange (Num 0) (Num 21)]\<rparr>)"
    unfolding findEOCD_static_found_state [OF a r v]
    by (simp add: w newZipReader_def)
  have c: "readCentralDirectory asciiLower (staticServer truncatedArchive)
       \<lparr>diskNumber = 0, centralDirDisk = 0, diskEntryCount = 1, totalEntryCount = 1,
        centralDirSize = 46, centralDirOffset = 1000, commentLength = 0,
        absoluteOffset = Num 0\<rparr>
       \<lparr>url = ''u'', fileSize = Num 22, requests = [Head, GetRange (Num 0) (Num 21)]\<rparr>
     = (Inl (HttpError 416),
        \<lparr>url = ''u'', fileSize = Num 22,
         requests = [Head, GetRange (Num 0) (Num 21), GetRange (Num 1000) (Num 1045)]\<rparr>)"
    by (simp add: readCentralDirectory_def Let_def fetchRange_eq staticServer_def w ok_def)
  show ?thesis
    by (simp add: readTableOfContents_def f c)
qed

text \<open>
  Claim C7 as stated fails twice. A second size query on the same reader, answered with
  another length, replaces the length that the first one stored. And the stored length
  does not bound the reads that follow the search for the end record: the listing of
  \<open>truncatedArchive\<close>, with 22 stored as the length, asks for the bytes 1000 to 1045
  that the end record names.
\<close>

theorem cached_length_overwritten_and_exceeded:
  "fileSize (snd (getFileSize (staticServer [0x00]) (newZipReader ''u''))) = Num 1
   \<and> fileSize (snd (getFileSize (staticServer [0x00, 0x00])
        (snd (getFileSize (staticServer [0x00]) (newZipReader ''u''))))) = Num 2
   \<and> readTableOfContents asciiLower (staticServer truncatedArchive) (newZipReader ''u'')
       = (Inl (HttpError 416),
          \<lparr>url = ''u'', fileSize = Num 22,
           requests = [Head, GetRange (Num 0) (Num 21), GetRange (Num 1000) (Num 1045)]\<rparr>)"
  by (simp add: example_sizes truncated_listing)

end
